theory Spec2Isabelle
  imports Main "HOL-Library.Word" "HOL-Library.Sublist"
begin

unbundle bit_operations_syntax

section \<open>Data model of the effect parser's IR builder\<close>

text \<open>
  The header under study declares the value types of the effect compiler
  (\<open>spv_node\<close>, \<open>type_info\<close>, \<open>function_info\<close>, \<open>pass_properties\<close>) and the parser
  class with its inline IR-builder members (\<open>add_node\<close>, \<open>lookup_id\<close>, \<open>convert_type\<close>,
  \<open>convert_constant\<close>, \<open>add_cast_node\<close>). Identifiers (\<open>spv::Id\<close>) are 32-bit unsigned
  integers. The members that only the parsing functions use (struct, function and
  technique tables, the lexer, the error text) and \<open>spv_node::add_string\<close>, which no
  builder function calls, are left out.
\<close>

type_synonym Id = "32 word"

text \<open>
  \<open>spv::Op\<close> is the opcode enumeration of the SPIR-V header. The enumerators the code
  names are constructors; \<open>OpOther n\<close> stands for every other enumerator, by its number.
\<close>

datatype Op =
    OpNop
  | OpTypeVoid
  | OpTypeBool
  | OpTypeInt
  | OpTypeFloat
  | OpTypeVector
  | OpTypeMatrix
  | OpTypeImage
  | OpTypeSampler
  | OpTypeSampledImage
  | OpTypeArray
  | OpTypeRuntimeArray
  | OpTypeStruct
  | OpTypeOpaque
  | OpTypePointer
  | OpTypeFunction
  | OpConstant
  | OpConstantNull
  | OpConvertFToU
  | OpConvertFToS
  | OpConvertSToF
  | OpConvertUToF
  | OpOther nat

text \<open>The three SPIR-V enumerators that \<open>convert_type\<close> passes as plain operands.\<close>

definition StorageClassFunction :: Id where
  "StorageClassFunction = 7"

definition Dim2D :: Id where
  "Dim2D = 1"

definition ImageFormatRgba8 :: Id where
  "ImageFormatRgba8 = 4"

text \<open>
  Modelled from the spec: the source location type is declared in a header that is not
  part of the sources at hand; the spec describes it as file identity, line and column.
\<close>

record location =
  source :: string
  line :: nat
  column :: nat

definition no_location :: location where
  "no_location = \<lparr>source = [], line = 1, column = 1\<rparr>"

text \<open>
  \<open>struct pass_properties\<close>. Its anonymous enumeration gives the state constants as
  unsigned integers; several of them share a value (\<open>ZERO\<close> and \<open>NONE\<close>, or \<open>ONE\<close>,
  \<open>ADD\<close>, \<open>KEEP\<close> and \<open>NEVER\<close>). \<open>MIN\<close> and \<open>MAX\<close> are written with a prime.
\<close>

definition NONE :: "32 word" where "NONE = 0"

definition ZERO :: "32 word" where "ZERO = 0"
definition ONE :: "32 word" where "ONE = 1"
definition SRCCOLOR :: "32 word" where "SRCCOLOR = 2"
definition INVSRCCOLOR :: "32 word" where "INVSRCCOLOR = 3"
definition SRCALPHA :: "32 word" where "SRCALPHA = 4"
definition INVSRCALPHA :: "32 word" where "INVSRCALPHA = 5"
definition DESTALPHA :: "32 word" where "DESTALPHA = 6"
definition INVDESTALPHA :: "32 word" where "INVDESTALPHA = 7"
definition DESTCOLOR :: "32 word" where "DESTCOLOR = 8"
definition INVDESTCOLOR :: "32 word" where "INVDESTCOLOR = 9"

definition ADD :: "32 word" where "ADD = 1"
definition SUBTRACT :: "32 word" where "SUBTRACT = 2"
definition REVSUBTRACT :: "32 word" where "REVSUBTRACT = 3"
definition MIN' :: "32 word" where "MIN' = 4"
definition MAX' :: "32 word" where "MAX' = 5"

definition KEEP :: "32 word" where "KEEP = 1"
definition REPLACE :: "32 word" where "REPLACE = 3"
definition INCRSAT :: "32 word" where "INCRSAT = 4"
definition DECRSAT :: "32 word" where "DECRSAT = 5"
definition INVERT :: "32 word" where "INVERT = 6"
definition INCR :: "32 word" where "INCR = 7"
definition DECR :: "32 word" where "DECR = 8"

definition NEVER :: "32 word" where "NEVER = 1"
definition LESS :: "32 word" where "LESS = 2"
definition EQUAL :: "32 word" where "EQUAL = 3"
definition LESSEQUAL :: "32 word" where "LESSEQUAL = 4"
definition GREATER :: "32 word" where "GREATER = 5"
definition NOTEQUAL :: "32 word" where "NOTEQUAL = 6"
definition GREATEREQUAL :: "32 word" where "GREATEREQUAL = 7"
definition ALWAYS :: "32 word" where "ALWAYS = 8"

text \<open>
  The annotation values (\<open>reshade::variant\<close>) are declared in another header; the record
  is polymorphic in them. \<open>render_targets\<close> is an array of eight identifiers.
\<close>

record 'v pass_properties =
  location :: location
  name :: string
  annotation_list :: "(string \<times> 'v) list"
  render_targets :: "Id list"
  vertex_shader :: Id
  pixel_shader :: Id
  clear_render_targets :: bool
  srgb_write_enable :: bool
  blend_enable :: bool
  stencil_enable :: bool
  color_write_mask :: "8 word"
  stencil_read_mask :: "8 word"
  stencil_write_mask :: "8 word"
  blend_op :: "32 word"
  blend_op_alpha :: "32 word"
  src_blend :: "32 word"
  dest_blend :: "32 word"
  src_blend_alpha :: "32 word"
  dest_blend_alpha :: "32 word"
  stencil_comparison_func :: "32 word"
  stencil_reference_value :: "32 word"
  stencil_op_pass :: "32 word"
  stencil_op_fail :: "32 word"
  stencil_op_depth_fail :: "32 word"

text \<open>
  Default construction of \<open>pass_properties\<close>. Four members have no default member
  initialiser (\<open>srgb_write_enable\<close>, \<open>blend_enable\<close>, \<open>stencil_enable\<close> and
  \<open>stencil_reference_value\<close>): their values are indeterminate and are parameters here.
  The location, the name and the annotations are default constructed.
\<close>

definition default_pass_properties ::
  "bool \<Rightarrow> bool \<Rightarrow> bool \<Rightarrow> 32 word \<Rightarrow> 'v pass_properties" where
  "default_pass_properties srgb blend stencil reference =
     \<lparr>location = no_location, name = [], annotation_list = [],
      render_targets = replicate 8 0, vertex_shader = 0, pixel_shader = 0,
      clear_render_targets = True, srgb_write_enable = srgb, blend_enable = blend,
      stencil_enable = stencil, color_write_mask = 0xF, stencil_read_mask = 0xFF,
      stencil_write_mask = 0xFF, blend_op = ADD, blend_op_alpha = ADD, src_blend = ONE,
      dest_blend = ZERO, src_blend_alpha = ONE, dest_blend_alpha = ZERO,
      stencil_comparison_func = ALWAYS, stencil_reference_value = reference,
      stencil_op_pass = KEEP, stencil_op_fail = KEEP, stencil_op_depth_fail = KEEP\<rparr>"

text \<open>
  \<open>struct spv_node\<close>. The \<open>index\<close> member is a \<open>size_t\<close> position inside the owning
  section; it is assigned right after the node is created, so the model keeps it as a
  natural number.
\<close>

record spv_node =
  op :: Op
  result :: Id
  result_type :: Id
  operands :: "Id list"
  index :: nat
  location :: location

text \<open>\<open>spv_node::add\<close>: append one operand.\<close>

definition add :: "Id \<Rightarrow> spv_node \<Rightarrow> spv_node" where
  "add operand n = n\<lparr>operands := operands n @ [operand]\<rparr>"

text \<open>
  \<open>struct type_info\<close>. \<open>size\<close>, \<open>rows\<close> and \<open>cols\<close> are bit-fields of 8, 4 and 4 bits;
  \<open>array_length\<close> is a signed 32-bit integer, compared as such (\<open><s\<close>). The members
  \<open>size\<close> and \<open>definition\<close> are written with a prime.
\<close>

record type_info =
  base :: Op
  size' :: "8 word"
  rows :: "4 word"
  cols :: "4 word"
  is_signed :: bool
  is_pointer :: bool
  qualifiers :: "32 word"
  array_length :: "32 word"
  definition' :: Id
  array_lenghth_expression :: Id

definition has :: "type_info \<Rightarrow> 32 word \<Rightarrow> bool" where
  "has t qualifier = ((qualifiers t AND qualifier) = qualifier)"

definition is_array :: "type_info \<Rightarrow> bool" where
  "is_array t = (array_length t \<noteq> 0)"

definition is_vector :: "type_info \<Rightarrow> bool" where
  "is_vector t = (1 < rows t \<and> cols t = 1)"

definition is_matrix :: "type_info \<Rightarrow> bool" where
  "is_matrix t = (1 \<le> rows t \<and> 1 < cols t)"

definition is_void :: "type_info \<Rightarrow> bool" where
  "is_void t = (base t = OpTypeVoid)"

definition is_boolean :: "type_info \<Rightarrow> bool" where
  "is_boolean t = (base t = OpTypeBool)"

definition is_integral :: "type_info \<Rightarrow> bool" where
  "is_integral t = (base t = OpTypeInt)"

definition is_floating_point :: "type_info \<Rightarrow> bool" where
  "is_floating_point t = (base t = OpTypeFloat)"

definition is_struct :: "type_info \<Rightarrow> bool" where
  "is_struct t = (base t = OpTypeStruct)"

definition is_image :: "type_info \<Rightarrow> bool" where
  "is_image t = (base t = OpTypeImage)"

definition is_sampled_image :: "type_info \<Rightarrow> bool" where
  "is_sampled_image t = (base t = OpTypeSampledImage)"

definition is_numeric :: "type_info \<Rightarrow> bool" where
  "is_numeric t = (is_boolean t \<or> is_integral t \<or> is_floating_point t)"

definition is_scalar :: "type_info \<Rightarrow> bool" where
  "is_scalar t = (\<not> is_array t \<and> \<not> is_matrix t \<and> \<not> is_vector t \<and> is_numeric t)"

text \<open>\<open>operator==\<close> on \<open>type_info\<close>.\<close>

definition type_eq :: "type_info \<Rightarrow> type_info \<Rightarrow> bool" where
  "type_eq lhs rhs =
     (base lhs = base rhs \<and> size' lhs = size' rhs \<and> rows lhs = rows rhs \<and>
      cols lhs = cols rhs \<and> is_signed lhs = is_signed rhs \<and>
      array_length lhs = array_length rhs \<and> definition' lhs = definition' rhs \<and>
      is_pointer lhs = is_pointer rhs)"

text \<open>
  The aggregate initialisation \<open>type_info { base, size, rows, cols, is_signed }\<close>: the
  members after \<open>is_signed\<close> take their default member initialisers.
\<close>

definition mk_type_info :: "Op \<Rightarrow> 8 word \<Rightarrow> 4 word \<Rightarrow> 4 word \<Rightarrow> bool \<Rightarrow> type_info" where
  "mk_type_info b sz r c sg =
     \<lparr>base = b, size' = sz, rows = r, cols = c, is_signed = sg, is_pointer = False,
      qualifiers = 0, array_length = 0, definition' = 0, array_lenghth_expression = 0\<rparr>"

text \<open>\<open>struct function_info\<close>; its \<open>definition\<close> member is \<open>fdefinition\<close> here.\<close>

record function_info =
  return_type :: type_info
  name :: string
  unique_name :: string
  parameter_list :: "type_info list"
  return_semantic :: string
  fdefinition :: Id


section \<open>The parser's builder state\<close>

text \<open>
  \<open>struct spv_section\<close> has the single member \<open>instructions\<close>, a vector of nodes.
\<close>

type_synonym spv_section = "spv_node list"

text \<open>
  The six sections of the parser; a value of \<open>section_ref\<close> stands for the C++
  reference \<open>spv_section &\<close> to one of them.
\<close>

datatype section_ref =
  Entries | Strings | Annotations | Variables | FunctionSection | Temporary

text \<open>
  The members of \<open>class parser\<close> that the inline builder functions read and write:
  the sections, the identifier lookup table, the type lookup table and the identifier
  counter.
\<close>

record parser =
  entries :: spv_section
  strings :: spv_section
  annotations :: spv_section
  variables :: spv_section
  function_section :: spv_section
  temporary :: spv_section
  id_lookup :: "(section_ref \<times> nat) list"
  type_lookup :: "(type_info \<times> Id) list"
  next_id :: Id

text \<open>A parser before any node is added: empty sections and tables, \<open>_next_id = 100\<close>.\<close>

definition new_parser :: parser where
  "new_parser =
     \<lparr>entries = [], strings = [], annotations = [], variables = [],
      function_section = [], temporary = [], id_lookup = [], type_lookup = [],
      next_id = 100\<rparr>"

fun instructions :: "section_ref \<Rightarrow> parser \<Rightarrow> spv_node list" where
  "instructions Entries s = entries s"
| "instructions Strings s = strings s"
| "instructions Annotations s = annotations s"
| "instructions Variables s = variables s"
| "instructions FunctionSection s = function_section s"
| "instructions Temporary s = temporary s"

fun set_instructions :: "section_ref \<Rightarrow> spv_node list \<Rightarrow> parser \<Rightarrow> parser" where
  "set_instructions Entries xs s = s\<lparr>entries := xs\<rparr>"
| "set_instructions Strings xs s = s\<lparr>strings := xs\<rparr>"
| "set_instructions Annotations xs s = s\<lparr>annotations := xs\<rparr>"
| "set_instructions Variables xs s = s\<lparr>variables := xs\<rparr>"
| "set_instructions FunctionSection xs s = s\<lparr>function_section := xs\<rparr>"
| "set_instructions Temporary xs s = s\<lparr>temporary := xs\<rparr>"

section \<open>Builder operations\<close>

text \<open>
  \<open>add_node_without_result\<close>: append a node with the given opcode and location, set its
  \<open>index\<close> to its position. The C++ returns a reference to the new node; the model
  returns its position in the section.
\<close>

definition add_node_without_result ::
  "section_ref \<Rightarrow> location \<Rightarrow> Op \<Rightarrow> parser \<Rightarrow> nat \<times> parser" where
  "add_node_without_result sec loc opc s =
     (let pos = length (instructions sec s);
          instruction = \<lparr>op = opc, result = 0, result_type = 0, operands = [],
                         index = pos, location = loc\<rparr>
      in (pos, set_instructions sec (instructions sec s @ [instruction]) s))"

text \<open>
  \<open>add_node\<close>: the new node takes \<open>_next_id\<close> as its result (the counter is a 32-bit
  unsigned integer and \<open>++\<close> wraps), is tagged with the type, and its position is
  recorded in \<open>_id_lookup\<close>.
\<close>

definition add_node ::
  "section_ref \<Rightarrow> location \<Rightarrow> Op \<Rightarrow> Id \<Rightarrow> parser \<Rightarrow> Id \<times> parser" where
  "add_node sec loc opc ty s =
     (case add_node_without_result sec loc opc s of
        (pos, s1) \<Rightarrow>
          (let instruction = (instructions sec s1 ! pos)\<lparr>result := next_id s1, result_type := ty\<rparr>;
               s2 = set_instructions sec ((instructions sec s1)[pos := instruction]) s1;
               s3 = s2\<lparr>next_id := next_id s2 + 1\<rparr>;
               s4 = s3\<lparr>id_lookup := id_lookup s3 @ [(sec, index instruction)]\<rparr>
           in (result instruction, s4)))"

text \<open>
  \<open>lookup_id\<close> indexes \<open>_id_lookup\<close> with \<open>id - 100\<close> (computed in 32 bits) and then the
  section with the recorded position. Neither access is checked in the C++; an access
  out of range is undefined there and is \<open>None\<close> here. \<open>lookup_ref\<close> is the reference
  that is returned, \<open>lookup_id\<close> the node it denotes, and \<open>lookup_id_add\<close> the chain
  \<open>lookup_id(id).add(x1).add(x2)...\<close>.
\<close>

definition lookup_ref :: "Id \<Rightarrow> parser \<Rightarrow> (section_ref \<times> nat) option" where
  "lookup_ref i s =
     (let k = unat (i - 100) in
      if k < length (id_lookup s) then
        (case id_lookup s ! k of
           (sec, pos) \<Rightarrow> if pos < length (instructions sec s) then Some (sec, pos) else None)
      else None)"

definition lookup_id :: "Id \<Rightarrow> parser \<Rightarrow> spv_node option" where
  "lookup_id i s =
     (case lookup_ref i s of
        None \<Rightarrow> None
      | Some (sec, pos) \<Rightarrow> Some (instructions sec s ! pos))"

definition lookup_id_add :: "Id \<Rightarrow> Id list \<Rightarrow> parser \<Rightarrow> parser option" where
  "lookup_id_add i xs s =
     (case lookup_ref i s of
        None \<Rightarrow> None
      | Some (sec, pos) \<Rightarrow>
          Some (set_instructions sec
                  ((instructions sec s)[pos := foldl (\<lambda>n x. add x n) (instructions sec s ! pos) xs]) s))"

text \<open>The common tail of \<open>convert_type\<close>: \<open>_type_lookup.push_back({ info, type })\<close>.\<close>

definition push_type :: "type_info \<Rightarrow> Id \<Rightarrow> parser \<Rightarrow> parser" where
  "push_type info ty s = s\<lparr>type_lookup := type_lookup s @ [(info, ty)]\<rparr>"

text \<open>
  The pattern \<open>type = add_node(_variables, {}, op); lookup_id(type).add(...)\<close> followed by
  the common tail.
\<close>

definition add_type_node :: "type_info \<Rightarrow> Op \<Rightarrow> Id list \<Rightarrow> parser \<Rightarrow> (Id \<times> parser) option" where
  "add_type_node info opc xs s =
     (case add_node Variables no_location opc 0 s of
        (ty, s1) \<Rightarrow>
          (case lookup_id_add ty xs s1 of
             None \<Rightarrow> None
           | Some s2 \<Rightarrow> Some (ty, push_type info ty s2)))"

text \<open>
  How deep the recursion of \<open>convert_type\<close> goes for a type: an array or pointer converts
  its element, which may be a matrix, whose element may be a vector, whose element is a
  scalar. The measure of its termination.
\<close>

definition depth :: "type_info \<Rightarrow> nat" where
  "depth info =
     (if is_array info \<or> is_pointer info then 3
      else if is_matrix info then 2
      else if is_vector info then 1
      else 0)"

text \<open>
  \<open>convert_type(const type_info &)\<close>. The search of \<open>_type_lookup\<close> comes first; then
  arrays, pointers, vectors and matrices convert their element type and add the
  composite node; the remaining types are switched on their base. The \<open>void\<close> and
  \<open>bool\<close> nodes get no operand and \<open>lookup_id\<close> is not called for them.
\<close>

function convert_type :: "type_info \<Rightarrow> parser \<Rightarrow> (Id \<times> parser) option" where
  "convert_type info s =
     (case find (\<lambda>x. type_eq (fst x) info) (type_lookup s) of
        Some x \<Rightarrow> Some (snd x, s)
      | None \<Rightarrow>
          (if is_array info then
             (case convert_type (mk_type_info (base info) (size' info) (rows info) (cols info) (is_signed info)) s of
                None \<Rightarrow> None
              | Some (elemtype, s1) \<Rightarrow>
                  (if 0 <s array_length info then
                     add_type_node info OpTypeArray [elemtype, array_lenghth_expression info] s1
                   else
                     add_type_node info OpTypeRuntimeArray [elemtype] s1))
           else if is_pointer info then
             (case convert_type (mk_type_info (base info) (size' info) (rows info) (cols info) (is_signed info)) s of
                None \<Rightarrow> None
              | Some (elemtype, s1) \<Rightarrow>
                  add_type_node info OpTypePointer [StorageClassFunction, elemtype] s1)
           else if is_vector info then
             (case convert_type (mk_type_info (base info) (size' info) 1 1 (is_signed info)) s of
                None \<Rightarrow> None
              | Some (elemtype, s1) \<Rightarrow>
                  add_type_node info OpTypeVector [elemtype, ucast (rows info)] s1)
           else if is_matrix info then
             (case convert_type (mk_type_info (base info) (size' info) (rows info) 1 (is_signed info)) s of
                None \<Rightarrow> None
              | Some (elemtype, s1) \<Rightarrow>
                  add_type_node info OpTypeMatrix [elemtype, ucast (cols info)] s1)
           else
             (case base info of
                OpTypeVoid \<Rightarrow>
                  (case add_node Variables no_location OpTypeVoid 0 s of
                     (ty, s1) \<Rightarrow> Some (ty, push_type info ty s1))
              | OpTypeBool \<Rightarrow>
                  (case add_node Variables no_location OpTypeBool 0 s of
                     (ty, s1) \<Rightarrow> Some (ty, push_type info ty s1))
              | OpTypeFloat \<Rightarrow>
                  add_type_node info OpTypeFloat [ucast (size' info)] s
              | OpTypeInt \<Rightarrow>
                  add_type_node info OpTypeInt [ucast (size' info), if is_signed info then 1 else 0] s
              | OpTypeStruct \<Rightarrow>
                  Some (definition' info, push_type info (definition' info) s)
              | OpTypeImage \<Rightarrow>
                  add_type_node info OpTypeImage
                    [definition' info, Dim2D, 0, 0, 0, 1, ImageFormatRgba8] s
              | OpTypeSampledImage \<Rightarrow>
                  add_type_node info OpTypeSampledImage [definition' info] s
              | _ \<Rightarrow> Some (0, s))))"
  by pat_completeness auto
termination
  by (relation "measure (\<lambda>(info, s). depth info)")
     (auto simp: depth_def mk_type_info_def is_array_def is_vector_def is_matrix_def)

declare convert_type.simps [simp del]

text \<open>
  \<open>convert_type(const function_info &)\<close>: the return type, then every parameter type in
  order (first loop), then the function-type node, whose operands are added one
  \<open>lookup_id\<close> at a time (second loop).
\<close>

fun convert_param_types :: "type_info list \<Rightarrow> parser \<Rightarrow> (Id list \<times> parser) option" where
  "convert_param_types [] s = Some ([], s)"
| "convert_param_types (param # params) s =
     (case convert_type param s of
        None \<Rightarrow> None
      | Some (ty, s1) \<Rightarrow>
          (case convert_param_types params s1 of
             None \<Rightarrow> None
           | Some (tys, s2) \<Rightarrow> Some (ty # tys, s2)))"

fun add_param_types :: "Id \<Rightarrow> Id list \<Rightarrow> parser \<Rightarrow> parser option" where
  "add_param_types ty [] s = Some s"
| "add_param_types ty (param_type # param_types) s =
     (case lookup_id_add ty [param_type] s of
        None \<Rightarrow> None
      | Some s1 \<Rightarrow> add_param_types ty param_types s1)"

definition convert_function_type :: "function_info \<Rightarrow> parser \<Rightarrow> (Id \<times> parser) option" where
  "convert_function_type info s =
     (case convert_type (return_type info) s of
        None \<Rightarrow> None
      | Some (ret, s1) \<Rightarrow>
          (case convert_param_types (parameter_list info) s1 of
             None \<Rightarrow> None
           | Some (param_types, s2) \<Rightarrow>
               (case add_node Variables no_location OpTypeFunction 0 s2 of
                  (ty, s3) \<Rightarrow>
                    (case lookup_id_add ty [ret] s3 of
                       None \<Rightarrow> None
                     | Some s4 \<Rightarrow>
                         (case add_param_types ty param_types s4 of
                            None \<Rightarrow> None
                          | Some s5 \<Rightarrow> Some (ty, s5))))))"

text \<open>
  \<open>convert_constant\<close>. The type argument of \<open>add_node\<close> is converted before the node is
  added.
\<close>

definition convert_constant :: "type_info \<Rightarrow> 32 word \<Rightarrow> parser \<Rightarrow> (Id \<times> parser) option" where
  "convert_constant ty v s =
     (if v = 0 then
        (case convert_type ty s of
           None \<Rightarrow> None
         | Some (t, s1) \<Rightarrow> Some (add_node Variables no_location OpConstantNull t s1))
      else
        (case convert_type ty s of
           None \<Rightarrow> None
         | Some (t, s1) \<Rightarrow>
             (case add_node Variables no_location OpConstant t s1 of
                (i, s2) \<Rightarrow>
                  (case lookup_id_add i [v] s2 of
                     None \<Rightarrow> None
                   | Some s3 \<Rightarrow> Some (i, s3)))))"

text \<open>
  \<open>add_cast_node\<close>. A failed \<open>assert\<close> ends the run and is \<open>None\<close>; any target base
  other than int and float returns the input unchanged.
\<close>

definition add_cast_node ::
  "section_ref \<Rightarrow> location \<Rightarrow> type_info \<Rightarrow> type_info \<Rightarrow> Id \<Rightarrow> parser \<Rightarrow> (Id \<times> parser) option" where
  "add_cast_node sec loc from to input s =
     (case base to of
        OpTypeInt \<Rightarrow>
          (if \<not> is_floating_point from then None
           else
             (case convert_type to s of
                None \<Rightarrow> None
              | Some (t, s1) \<Rightarrow>
                  (case add_node sec loc (if is_signed to then OpConvertFToS else OpConvertFToU) t s1 of
                     (r, s2) \<Rightarrow>
                       (case lookup_id_add r [input] s2 of
                          None \<Rightarrow> None
                        | Some s3 \<Rightarrow> Some (r, s3)))))
      | OpTypeFloat \<Rightarrow>
          (if \<not> is_integral from then None
           else
             (case convert_type to s of
                None \<Rightarrow> None
              | Some (t, s1) \<Rightarrow>
                  (case add_node sec loc (if is_signed from then OpConvertSToF else OpConvertUToF) t s1 of
                     (r, s2) \<Rightarrow>
                       (case lookup_id_add r [input] s2 of
                          None \<Rightarrow> None
                        | Some s3 \<Rightarrow> Some (r, s3)))))
      | _ \<Rightarrow> Some (input, s))"


section \<open>Invariants and auxiliary notions\<close>

text \<open>
  The state after \<open>add_node\<close> on a section followed by \<open>add\<close> of the operands \<open>xs\<close> to the
  new node: one node more in the section, one entry more in \<open>_id_lookup\<close>, the counter
  one further.
\<close>

definition emit :: "section_ref \<Rightarrow> location \<Rightarrow> Op \<Rightarrow> Id \<Rightarrow> Id list \<Rightarrow> parser \<Rightarrow> parser" where
  "emit sec loc opc ty xs s =
     (set_instructions sec
        (instructions sec s @
           [\<lparr>op = opc, result = next_id s, result_type = ty, operands = xs,
             index = length (instructions sec s), location = loc\<rparr>]) s)
       \<lparr>next_id := next_id s + 1,
        id_lookup := id_lookup s @ [(sec, length (instructions sec s))]\<rparr>"

text \<open>
  The lookup table and the counter agree: the counter is 100 plus the number of entries
  (as a 32-bit value), and every entry points into its section.
\<close>

definition consistent :: "parser \<Rightarrow> bool" where
  "consistent s \<longleftrightarrow>
     next_id s = 100 + of_nat (length (id_lookup s)) \<and>
     (\<forall>e \<in> set (id_lookup s). snd e < length (instructions (fst e) s))"

text \<open>
  A well-formed builder state is consistent and has allocated fewer than
  \<open>2 ^ 32 - 100\<close> identifiers, so the 32-bit counter has not wrapped.
\<close>

definition wf_parser :: "parser \<Rightarrow> bool" where
  "wf_parser s \<longleftrightarrow> consistent s \<and> 100 + length (id_lookup s) < 2 ^ 32"

text \<open>
  \<open>room k s\<close>: \<open>k\<close> more identifiers can be allocated before the counter wraps.
\<close>

definition room :: "nat \<Rightarrow> parser \<Rightarrow> bool" where
  "room k s \<longleftrightarrow> 100 + length (id_lookup s) + k < 2 ^ 32"

text \<open>
  A node and a later version of it: only operands were appended.
\<close>

definition node_le :: "spv_node \<Rightarrow> spv_node \<Rightarrow> bool" where
  "node_le n n' \<longleftrightarrow>
     op n' = op n \<and> result n' = result n \<and> result_type n' = result_type n \<and>
     prefix (operands n) (operands n')"

text \<open>
  A later state of the same compile: tables and sections only grew, and every node kept
  its opcode, result and type.
\<close>

definition extends :: "parser \<Rightarrow> parser \<Rightarrow> bool" where
  "extends s s' \<longleftrightarrow>
     prefix (id_lookup s) (id_lookup s') \<and> prefix (type_lookup s) (type_lookup s') \<and>
     (\<forall>sec. length (instructions sec s) \<le> length (instructions sec s') \<and>
        (\<forall>pos < length (instructions sec s).
           node_le (instructions sec s ! pos) (instructions sec s' ! pos)))"

text \<open>
  The branch conditions of \<open>convert_type\<close>, named: a composite type converts its element
  type first; a plain struct returns its definition; an unsupported type hits the
  \<open>default\<close> label of the switch.
\<close>

definition composite :: "type_info \<Rightarrow> bool" where
  "composite t \<longleftrightarrow> is_array t \<or> is_pointer t \<or> is_vector t \<or> is_matrix t"

definition plain_struct :: "type_info \<Rightarrow> bool" where
  "plain_struct t \<longleftrightarrow> \<not> composite t \<and> base t = OpTypeStruct"

definition supported_base :: "Op \<Rightarrow> bool" where
  "supported_base b \<longleftrightarrow>
     b = OpTypeVoid \<or> b = OpTypeBool \<or> b = OpTypeFloat \<or> b = OpTypeInt \<or>
     b = OpTypeStruct \<or> b = OpTypeImage \<or> b = OpTypeSampledImage"

definition unsupported :: "type_info \<Rightarrow> bool" where
  "unsupported t \<longleftrightarrow> \<not> composite t \<and> \<not> supported_base (base t)"

text \<open>
  The element type that each composite branch of \<open>convert_type\<close> converts first, and the
  opcode and operands of the node each branch adds.
\<close>

definition elem_type :: "type_info \<Rightarrow> type_info" where
  "elem_type t =
     (if is_array t \<or> is_pointer t then
        mk_type_info (base t) (size' t) (rows t) (cols t) (is_signed t)
      else if is_vector t then mk_type_info (base t) (size' t) 1 1 (is_signed t)
      else mk_type_info (base t) (size' t) (rows t) 1 (is_signed t))"

definition type_op :: "type_info \<Rightarrow> Op" where
  "type_op t =
     (if is_array t then (if 0 <s array_length t then OpTypeArray else OpTypeRuntimeArray)
      else if is_pointer t then OpTypePointer
      else if is_vector t then OpTypeVector
      else if is_matrix t then OpTypeMatrix
      else base t)"

definition type_operands :: "type_info \<Rightarrow> Id \<Rightarrow> Id list" where
  "type_operands t e =
     (if is_array t then
        (if 0 <s array_length t then [e, array_lenghth_expression t] else [e])
      else if is_pointer t then [StorageClassFunction, e]
      else if is_vector t then [e, ucast (rows t)]
      else if is_matrix t then [e, ucast (cols t)]
      else if base t = OpTypeFloat then [ucast (size' t)]
      else if base t = OpTypeInt then [ucast (size' t), if is_signed t then 1 else 0]
      else if base t = OpTypeImage then [definition' t, Dim2D, 0, 0, 0, 1, ImageFormatRgba8]
      else if base t = OpTypeSampledImage then [definition' t]
      else [])"

text \<open>
  The result of a branch that adds a node and then records the type.
\<close>

definition new_type :: "type_info \<Rightarrow> Id \<Rightarrow> parser \<Rightarrow> Id \<times> parser" where
  "new_type t e s =
     (next_id s,
      push_type t (next_id s) (emit Variables no_location (type_op t) 0 (type_operands t e) s))"

text \<open>
  The search of \<open>_type_lookup\<close> at the head of \<open>convert_type\<close>: its result when it finds
  an entry, and the case that it finds none.
\<close>

definition interned :: "type_info \<Rightarrow> Id \<Rightarrow> parser \<Rightarrow> bool" where
  "interned t ty s \<longleftrightarrow>
     (\<exists>x. find (\<lambda>x. type_eq (fst x) t) (type_lookup s) = Some x \<and> snd x = ty)"

definition missing :: "type_info \<Rightarrow> parser \<Rightarrow> bool" where
  "missing t s \<longleftrightarrow> find (\<lambda>x. type_eq (fst x) t) (type_lookup s) = None"

text \<open>
  The invariant of \<open>_type_lookup\<close>: no entry for an unsupported type; a plain struct maps to
  its definition; every other entry maps to an allocated identifier whose node is not a
  struct declaration, and no two such entries share an identifier.
\<close>

definition tl_ok :: "parser \<Rightarrow> bool" where
  "tl_ok s \<longleftrightarrow>
     (\<forall>e \<in> set (type_lookup s).
        \<not> unsupported (fst e) \<and>
        (plain_struct (fst e) \<longrightarrow> snd e = definition' (fst e)) \<and>
        (\<not> plain_struct (fst e) \<longrightarrow>
           100 \<le> snd e \<and> snd e < next_id s \<and>
           (\<exists>n. lookup_id (snd e) s = Some n \<and> op n \<noteq> OpTypeStruct))) \<and>
     (\<forall>e \<in> set (type_lookup s). \<forall>e' \<in> set (type_lookup s).
        \<not> plain_struct (fst e) \<longrightarrow> \<not> plain_struct (fst e') \<longrightarrow> snd e = snd e' \<longrightarrow>
        fst e = fst e')"

text \<open>
  A struct type refers to a struct declaration that exists: its \<open>definition\<close> is the
  identifier of a node with opcode \<open>OpTypeStruct\<close>.
\<close>

definition struct_declared :: "type_info \<Rightarrow> parser \<Rightarrow> bool" where
  "struct_declared t s \<longleftrightarrow>
     (base t = OpTypeStruct \<longrightarrow> (\<exists>n. lookup_id (definition' t) s = Some n \<and> op n = OpTypeStruct))"

text \<open>
  The entries that a conversion of \<open>t\<close> appends are no deeper than \<open>t\<close>.
\<close>

definition grows :: "type_info \<Rightarrow> parser \<Rightarrow> parser \<Rightarrow> bool" where
  "grows t s s' \<longleftrightarrow>
     (\<exists>new. type_lookup s' = type_lookup s @ new \<and> (\<forall>e \<in> set new. depth (fst e) \<le> depth t))"

text \<open>
  \<open>ty\<close> is what \<open>convert_type\<close> answers for \<open>t\<close> from now on: the interned identifier,
  or 0 for an unsupported type.
\<close>

definition resolved :: "type_info \<Rightarrow> Id \<Rightarrow> parser \<Rightarrow> bool" where
  "resolved t ty s \<longleftrightarrow> interned t ty s \<or> (unsupported t \<and> ty = 0)"

text \<open>
  What a conversion establishes.
\<close>

definition conv_post :: "type_info \<Rightarrow> parser \<Rightarrow> Id \<Rightarrow> parser \<Rightarrow> bool" where
  "conv_post t s ty s' \<longleftrightarrow>
     wf_parser s' \<and> tl_ok s' \<and> length (id_lookup s') \<le> length (id_lookup s) + depth t + 1 \<and>
     grows t s s' \<and> resolved t ty s'"

text \<open>
  The calls of the builder that may follow one another in a compile, and their effect
  on the state; \<open>AddOperands i xs\<close> is \<open>lookup_id(i).add(...)\<close> from outside.
\<close>

datatype builder_call =
    AddNode section_ref location Op Id
  | AddOperands Id "Id list"
  | ConvertType type_info
  | ConvertFunctionType function_info
  | ConvertConstant type_info "32 word"
  | AddCastNode section_ref location type_info type_info Id

fun call :: "builder_call \<Rightarrow> parser \<Rightarrow> parser option" where
  "call (AddNode sec loc opc ty) s = Some (snd (add_node sec loc opc ty s))"
| "call (AddOperands i xs) s = lookup_id_add i xs s"
| "call (ConvertType t) s = map_option snd (convert_type t s)"
| "call (ConvertFunctionType f) s = map_option snd (convert_function_type f s)"
| "call (ConvertConstant t v) s = map_option snd (convert_constant t v s)"
| "call (AddCastNode sec loc from to input) s = map_option snd (add_cast_node sec loc from to input s)"

fun calls :: "builder_call list \<Rightarrow> parser \<Rightarrow> parser option" where
  "calls [] s = Some s"
| "calls (c # cs) s = (case call c s of None \<Rightarrow> None | Some s1 \<Rightarrow> calls cs s1)"

text \<open>
  Every builder call extends the state and keeps it consistent.
\<close>

definition keeps :: "parser \<Rightarrow> parser \<Rightarrow> bool" where
  "keeps s s' \<longleftrightarrow> extends s s' \<and> (consistent s \<longrightarrow> consistent s')"

text \<open>
  Concrete inputs for the instances below.
\<close>

definition float_type :: type_info where
  "float_type = mk_type_info OpTypeFloat 32 1 1 False"

definition struct_type :: type_info where
  "struct_type = (mk_type_info OpTypeStruct 0 0 0 False)\<lparr>definition' := 100\<rparr>"

definition struct_shaped_vector :: type_info where
  "struct_shaped_vector = (mk_type_info OpTypeStruct 0 3 1 False)\<lparr>definition' := 100\<rparr>"

definition struct_declared_parser :: parser where
  "struct_declared_parser = snd (add_node Variables no_location OpTypeStruct 0 new_parser)"

definition float_array_a :: type_info where
  "float_array_a = float_type\<lparr>array_length := 3, array_lenghth_expression := 7\<rparr>"

definition float_array_b :: type_info where
  "float_array_b = float_type\<lparr>array_length := 3, array_lenghth_expression := 8\<rparr>"

definition float_runtime_array :: type_info where
  "float_runtime_array = float_type\<lparr>array_length := - 1\<rparr>"

definition float3_type :: type_info where
  "float3_type = mk_type_info OpTypeFloat 32 3 1 False"

definition example_function :: function_info where
  "example_function =
     \<lparr>return_type = float_type, name = ''f'', unique_name = ''f'',
      parameter_list = [float3_type, float_type], return_semantic = [], fdefinition = 0\<rparr>"

text \<open>
  An upper bound on the identifiers that one builder call allocates.
\<close>

fun cost :: "builder_call \<Rightarrow> nat" where
  "cost (AddNode sec loc opc ty) = 1"
| "cost (AddOperands i xs) = 0"
| "cost (ConvertType t) = 4"
| "cost (ConvertFunctionType f) = 4 * length (parameter_list f) + 5"
| "cost (ConvertConstant t v) = 5"
| "cost (AddCastNode sec loc src dst input) = 5"


section \<open>Properties of the builder\<close>

subsection \<open>Sections\<close>

lemma instructions_set_instructions [simp]:
  "instructions sec (set_instructions sec' xs s) = (if sec = sec' then xs else instructions sec s)"
  by (cases sec; cases sec'; simp)

lemma set_instructions_other [simp]:
  "id_lookup (set_instructions sec xs s) = id_lookup s"
  "type_lookup (set_instructions sec xs s) = type_lookup s"
  "next_id (set_instructions sec xs s) = next_id s"
  by (cases sec; simp)+

lemma instructions_update [simp]:
  "instructions sec (s\<lparr>next_id := n\<rparr>) = instructions sec s"
  "instructions sec (s\<lparr>id_lookup := ids\<rparr>) = instructions sec s"
  "instructions sec (s\<lparr>type_lookup := tys\<rparr>) = instructions sec s"
  by (cases sec; simp)+

lemma parser_eqI:
  assumes "\<And>sec. instructions sec s = instructions sec s'"
    and "id_lookup s = id_lookup s'" and "type_lookup s = type_lookup s'"
    and "next_id s = next_id s'"
  shows "s = (s' :: parser)"
proof -
  have "entries s = entries s'" using assms(1) [of Entries] by simp
  moreover have "strings s = strings s'" using assms(1) [of Strings] by simp
  moreover have "annotations s = annotations s'" using assms(1) [of Annotations] by simp
  moreover have "variables s = variables s'" using assms(1) [of Variables] by simp
  moreover have "function_section s = function_section s'" using assms(1) [of FunctionSection] by simp
  moreover have "temporary s = temporary s'" using assms(1) [of Temporary] by simp
  ultimately show ?thesis using assms(2-4) by simp
qed

declare instructions.simps [simp del] set_instructions.simps [simp del]

subsection \<open>emit\<close>

lemma emit_simps [simp]:
  "instructions sec' (emit sec loc opc ty xs s) =
     (if sec' = sec then
        instructions sec s @
          [\<lparr>op = opc, result = next_id s, result_type = ty, operands = xs,
            index = length (instructions sec s), location = loc\<rparr>]
      else instructions sec' s)"
  "id_lookup (emit sec loc opc ty xs s) = id_lookup s @ [(sec, length (instructions sec s))]"
  "type_lookup (emit sec loc opc ty xs s) = type_lookup s"
  "next_id (emit sec loc opc ty xs s) = next_id s + 1"
  by (simp_all add: emit_def)

lemma push_type_simps [simp]:
  "instructions sec (push_type t i s) = instructions sec s"
  "id_lookup (push_type t i s) = id_lookup s"
  "type_lookup (push_type t i s) = type_lookup s @ [(t, i)]"
  "next_id (push_type t i s) = next_id s"
  by (simp_all add: push_type_def)

lemma add_node_emit: "add_node sec loc opc ty s = (next_id s, emit sec loc opc ty [] s)"
  by (rule prod_eqI) (auto simp: add_node_def add_node_without_result_def Let_def intro!: parser_eqI)

lemma foldl_add: "foldl (\<lambda>n x. add x n) n xs = n\<lparr>operands := operands n @ xs\<rparr>"
  by (induction xs arbitrary: n) (simp_all add: add_def)

lemma lookup_ref_Some:
  "lookup_ref i s = Some (sec, pos) \<longleftrightarrow>
     unat (i - 100) < length (id_lookup s) \<and> id_lookup s ! unat (i - 100) = (sec, pos) \<and>
     pos < length (instructions sec s)"
  by (auto simp: lookup_ref_def Let_def split: prod.splits)

lemma lookup_ref_emit_new:
  assumes "unat (next_id s - 100) = length (id_lookup s)"
  shows "lookup_ref (next_id s) (emit sec loc opc ty ys s) = Some (sec, length (instructions sec s))"
  using assms by (simp add: lookup_ref_Some)

lemma lookup_id_add_emit:
  assumes "unat (next_id s - 100) = length (id_lookup s)"
  shows "lookup_id_add (next_id s) xs (emit sec loc opc ty ys s) = Some (emit sec loc opc ty (ys @ xs) s)"
  unfolding lookup_id_add_def lookup_ref_emit_new [OF assms]
  by (auto simp: foldl_add intro!: parser_eqI)

lemma lookup_id_emit_new:
  assumes "unat (next_id s - 100) = length (id_lookup s)"
  shows "lookup_id (next_id s) (emit sec loc opc ty ys s) =
           Some \<lparr>op = opc, result = next_id s, result_type = ty, operands = ys,
                 index = length (instructions sec s), location = loc\<rparr>"
  unfolding lookup_id_def lookup_ref_emit_new [OF assms] by simp

subsection \<open>Well-formed states\<close>

lemma wf_unat: "wf_parser s \<Longrightarrow> unat (next_id s) = 100 + length (id_lookup s)"
  by (simp add: wf_parser_def consistent_def unat_word_ariths unat_of_nat)

lemma wf_new_index: "wf_parser s \<Longrightarrow> unat (next_id s - 100) = length (id_lookup s)"
  by (simp add: wf_parser_def consistent_def unat_of_nat)

lemma wf_ge_100: "wf_parser s \<Longrightarrow> 100 \<le> next_id s"
  using wf_unat [of s] by (simp add: word_le_nat_alt)

lemma consistent_emit: "consistent s \<Longrightarrow> consistent (emit sec loc opc ty xs s)"
  by (auto simp: consistent_def)

lemma consistent_push_type [simp]: "consistent (push_type t i s) = consistent s"
  by (simp add: consistent_def)

lemma consistent_lookup_id_add:
  "lookup_id_add i xs s = Some s' \<Longrightarrow> consistent s \<Longrightarrow> consistent s'"
  by (force simp: lookup_id_add_def consistent_def split: option.splits)

lemma wf_emit: "wf_parser s \<Longrightarrow> room 1 s \<Longrightarrow> wf_parser (emit sec loc opc ty xs s)"
  by (simp add: wf_parser_def room_def consistent_emit)

lemma wf_push_type [simp]: "wf_parser (push_type t i s) = wf_parser s"
  by (simp add: wf_parser_def)

lemma room_emit [simp]: "room k (emit sec loc opc ty xs s) = room (Suc k) s"
  by (simp add: room_def)

lemma room_push_type [simp]: "room k (push_type t i s) = room k s"
  by (simp add: room_def)

lemma room_mono: "room k s \<Longrightarrow> j \<le> k \<Longrightarrow> room j s"
  by (simp add: room_def)

lemma wf_new_parser: "wf_parser new_parser"
  by (simp add: wf_parser_def consistent_def new_parser_def)

subsection \<open>Extension of states\<close>

lemma node_le_refl [simp]: "node_le n n"
  by (simp add: node_le_def)

lemma node_le_trans: "node_le a b \<Longrightarrow> node_le b c \<Longrightarrow> node_le a c"
  by (auto simp: node_le_def)

lemma ext_refl [simp]: "extends s s"
  by (simp add: extends_def)

lemma ext_trans: "extends a b \<Longrightarrow> extends b c \<Longrightarrow> extends a c"
proof -
  assume ab: "extends a b" and bc: "extends b c"
  have "prefix (id_lookup a) (id_lookup c)"
    using ab bc unfolding extends_def by (blast intro: prefix_order.order_trans)
  moreover have "prefix (type_lookup a) (type_lookup c)"
    using ab bc unfolding extends_def by (blast intro: prefix_order.order_trans)
  moreover have "length (instructions sec a) \<le> length (instructions sec c)" for sec
    using ab bc unfolding extends_def by (blast intro: le_trans)
  moreover have "node_le (instructions sec a ! pos) (instructions sec c ! pos)"
    if "pos < length (instructions sec a)" for sec pos
  proof -
    from ab that have 1: "node_le (instructions sec a ! pos) (instructions sec b ! pos)"
      and "length (instructions sec a) \<le> length (instructions sec b)"
      by (simp_all add: extends_def)
    with that have "pos < length (instructions sec b)" by simp
    with bc have "node_le (instructions sec b ! pos) (instructions sec c ! pos)"
      by (simp add: extends_def)
    with 1 show ?thesis by (rule node_le_trans)
  qed
  ultimately show ?thesis by (simp add: extends_def)
qed

lemma ext_emit: "extends s (emit sec loc opc ty xs s)"
  by (simp add: extends_def nth_append)

lemma ext_push_type: "extends s (push_type t i s)"
  by (simp add: extends_def)

lemma ext_lookup_id_add: "lookup_id_add i xs s = Some s' \<Longrightarrow> extends s s'"
  by (auto simp: lookup_id_add_def extends_def nth_list_update foldl_add node_le_def
      lookup_ref_Some split: option.splits)

lemma ext_length: "extends s s' \<Longrightarrow> length (id_lookup s) \<le> length (id_lookup s')"
  by (simp add: extends_def prefix_length_le)

lemma lookup_ref_ext:
  assumes "lookup_ref i s = Some (sec, pos)" and "extends s s'"
  shows "lookup_ref i s' = Some (sec, pos)"
proof -
  let ?k = "unat (i - 100)"
  from assms(1) have k: "?k < length (id_lookup s)" and e: "id_lookup s ! ?k = (sec, pos)"
    and p: "pos < length (instructions sec s)"
    by (simp_all add: lookup_ref_Some)
  from assms(2) obtain ys where ys: "id_lookup s' = id_lookup s @ ys"
    by (auto simp: extends_def prefix_def)
  from assms(2) have "length (instructions sec s) \<le> length (instructions sec s')"
    by (simp add: extends_def)
  with k e p ys show ?thesis
    by (simp add: lookup_ref_Some nth_append)
qed

lemma lookup_id_ext:
  assumes "lookup_id i s = Some n" and "extends s s'"
  shows "\<exists>n'. lookup_id i s' = Some n' \<and> node_le n n'"
proof -
  from assms(1) obtain sec pos where r: "lookup_ref i s = Some (sec, pos)"
    and n: "n = instructions sec s ! pos"
    by (auto simp: lookup_id_def split: option.splits)
  from r have p: "pos < length (instructions sec s)"
    by (simp add: lookup_ref_Some)
  from assms(2) p have "node_le (instructions sec s ! pos) (instructions sec s' ! pos)"
    by (simp add: extends_def)
  with lookup_ref_ext [OF r assms(2)] n show ?thesis
    by (simp add: lookup_id_def)
qed

subsection \<open>One step of convert_type\<close>

lemma convert_type_hit: "interned t ty s \<Longrightarrow> convert_type t s = Some (ty, s)"
  by (subst convert_type.simps) (auto simp: interned_def)

lemma convert_type_composite:
  assumes "missing t s" and "composite t"
  shows "convert_type t s =
           (case convert_type (elem_type t) s of
              None \<Rightarrow> None
            | Some (e, s1) \<Rightarrow> add_type_node t (type_op t) (type_operands t e) s1)"
proof -
  from assms(1) have m: "find (\<lambda>x. type_eq (fst x) t) (type_lookup s) = None"
    by (simp add: missing_def)
  consider (sized) "is_array t" "0 <s array_length t"
    | (dynamic) "is_array t" "\<not> 0 <s array_length t"
    | (pointer) "\<not> is_array t" "is_pointer t"
    | (vector) "\<not> is_array t" "\<not> is_pointer t" "is_vector t"
    | (matrix) "\<not> is_array t" "\<not> is_pointer t" "\<not> is_vector t" "is_matrix t"
    using assms(2) by (auto simp: composite_def)
  then show ?thesis
  proof cases
    case sized
    then show ?thesis
      by (subst convert_type.simps) (simp add: m elem_type_def type_op_def type_operands_def split: option.splits)
  next
    case dynamic
    then show ?thesis
      by (subst convert_type.simps) (simp add: m elem_type_def type_op_def type_operands_def split: option.splits)
  next
    case pointer
    then show ?thesis
      by (subst convert_type.simps) (simp add: m elem_type_def type_op_def type_operands_def split: option.splits)
  next
    case vector
    then show ?thesis
      by (subst convert_type.simps) (simp add: m elem_type_def type_op_def type_operands_def split: option.splits)
  next
    case matrix
    then show ?thesis
      by (subst convert_type.simps) (simp add: m elem_type_def type_op_def type_operands_def split: option.splits)
  qed
qed

lemma convert_type_struct:
  assumes "missing t s" and "plain_struct t"
  shows "convert_type t s = Some (definition' t, push_type t (definition' t) s)"
  using assms
  by (subst convert_type.simps) (simp add: missing_def plain_struct_def composite_def)

lemma convert_type_unsupported:
  assumes "missing t s" and "unsupported t"
  shows "convert_type t s = Some (0, s)"
proof -
  from assms have "find (\<lambda>x. type_eq (fst x) t) (type_lookup s) = None"
    and "\<not> is_array t" and "\<not> is_pointer t" and "\<not> is_vector t" and "\<not> is_matrix t"
    and "\<not> supported_base (base t)"
    by (simp_all add: missing_def unsupported_def composite_def)
  then show ?thesis
    by (subst convert_type.simps) (cases "base t"; simp add: supported_base_def)
qed

lemma convert_type_basic:
  assumes "missing t s" and "\<not> composite t" and "\<not> plain_struct t" and "\<not> unsupported t"
  shows "convert_type t s =
           (if base t = OpTypeVoid \<or> base t = OpTypeBool then Some (new_type t 0 s)
            else add_type_node t (type_op t) (type_operands t 0) s)"
proof -
  from assms have "find (\<lambda>x. type_eq (fst x) t) (type_lookup s) = None"
    and "\<not> is_array t" and "\<not> is_pointer t" and "\<not> is_vector t" and "\<not> is_matrix t"
    and "supported_base (base t)" and "base t \<noteq> OpTypeStruct"
    by (simp_all add: missing_def unsupported_def composite_def plain_struct_def)
  then show ?thesis
    by (subst convert_type.simps)
       (cases "base t";
        simp add: supported_base_def type_op_def type_operands_def new_type_def add_node_emit)
qed

lemma add_type_node_wf:
  assumes "wf_parser s"
  shows "add_type_node t opc xs s =
           Some (next_id s, push_type t (next_id s) (emit Variables no_location opc 0 xs s))"
  using lookup_id_add_emit [OF wf_new_index [OF assms], of xs Variables no_location opc 0 "[]"]
  by (simp add: add_type_node_def add_node_emit)

lemma depth_elem_type: "composite t \<Longrightarrow> depth (elem_type t) < depth t"
  by (auto simp: composite_def elem_type_def depth_def mk_type_info_def is_array_def
      is_vector_def is_matrix_def)

lemma convert_type_induct [case_names step]:
  assumes "\<And>t. (composite t \<Longrightarrow> P (elem_type t)) \<Longrightarrow> P t"
  shows "P t"
proof (induction "depth t" arbitrary: t rule: less_induct)
  case less
  show ?case
    by (rule assms) (rule less, rule depth_elem_type)
qed

subsection \<open>Equality of types\<close>

lemma type_eq_refl [simp]: "type_eq t t"
  by (simp add: type_eq_def)

lemma type_eq_sym: "type_eq a b \<Longrightarrow> type_eq b a"
  by (simp add: type_eq_def)

lemma type_eq_trans: "type_eq a b \<Longrightarrow> type_eq b c \<Longrightarrow> type_eq a c"
  by (simp add: type_eq_def)

lemma type_eq_left: "type_eq a b \<Longrightarrow> type_eq x a = type_eq x b"
  by (auto simp: type_eq_def)

lemma type_eq_shape:
  assumes "type_eq a b"
  shows "composite a = composite b" and "plain_struct a = plain_struct b"
    and "unsupported a = unsupported b" and "depth a = depth b"
    and "definition' a = definition' b" and "is_array a = is_array b"
  using assms
  by (simp_all add: type_eq_def composite_def plain_struct_def unsupported_def depth_def
      is_array_def is_vector_def is_matrix_def)

lemma find_append:
  "find P (xs @ ys) = (case find P xs of None \<Rightarrow> find P ys | Some x \<Rightarrow> Some x)"
  by (induction xs) simp_all

lemma missing_or_interned: "missing t s \<or> (\<exists>ty. interned t ty s)"
  by (cases "find (\<lambda>x. type_eq (fst x) t) (type_lookup s)") (simp_all add: missing_def interned_def)

lemma interned_entry:
  assumes "interned t ty s"
  shows "\<exists>t'. (t', ty) \<in> set (type_lookup s) \<and> type_eq t' t"
proof -
  from assms obtain x where "find (\<lambda>x. type_eq (fst x) t) (type_lookup s) = Some x" "snd x = ty"
    by (auto simp: interned_def)
  then have "x \<in> set (type_lookup s)" "type_eq (fst x) t"
    by (auto simp: find_Some_iff)
  with \<open>snd x = ty\<close> show ?thesis
    by (cases x) auto
qed

lemma missing_iff: "missing t s \<longleftrightarrow> (\<forall>e \<in> set (type_lookup s). \<not> type_eq (fst e) t)"
  by (auto simp: missing_def find_None_iff)

lemma interned_eq: "type_eq a b \<Longrightarrow> interned a ty s = interned b ty s"
  by (simp add: interned_def type_eq_left)

lemma missing_eq: "type_eq a b \<Longrightarrow> missing a s = missing b s"
  by (simp add: missing_def type_eq_left)

lemma interned_append: "interned t ty s \<Longrightarrow> type_lookup s' = type_lookup s @ new \<Longrightarrow> interned t ty s'"
  by (auto simp: interned_def find_append)

lemma interned_mono: "interned t ty s \<Longrightarrow> extends s s' \<Longrightarrow> interned t ty s'"
  by (auto simp: extends_def prefix_def intro: interned_append)

lemma interned_push:
  "missing t s \<Longrightarrow> interned t ty (push_type t ty s)"
  by (simp add: interned_def missing_def find_append)

lemma interned_unique: "interned t a s \<Longrightarrow> interned t b s \<Longrightarrow> a = b"
  by (auto simp: interned_def)

lemma interned_not_missing: "interned t a s \<Longrightarrow> \<not> missing t s"
  by (auto simp: interned_def missing_def)

lemma tl_ok_supported: "tl_ok s \<Longrightarrow> unsupported t \<Longrightarrow> missing t s"
  unfolding tl_ok_def missing_iff
  using type_eq_shape(3) by blast

lemma resolved_convert:
  assumes "tl_ok s" and "resolved t ty s"
  shows "convert_type t s = Some (ty, s)"
  using assms convert_type_hit convert_type_unsupported tl_ok_supported
  by (auto simp: resolved_def)

lemma resolved_mono: "resolved t ty s \<Longrightarrow> extends s s' \<Longrightarrow> resolved t ty s'"
  by (auto simp: resolved_def intro: interned_mono)

lemma resolved_eq: "type_eq a b \<Longrightarrow> resolved a ty s = resolved b ty s"
  by (simp add: resolved_def interned_eq type_eq_shape(3))

subsection \<open>Extension and consistency through convert_type\<close>

lemma add_type_node_ext:
  assumes "add_type_node t opc xs s = Some (ty, s')"
  shows "extends s s'" and "consistent s \<Longrightarrow> consistent s'"
proof -
  from assms obtain s2 where 2: "lookup_id_add (next_id s) xs (emit Variables no_location opc 0 [] s) = Some s2"
    and s': "s' = push_type t (next_id s) s2"
    by (auto simp: add_type_node_def add_node_emit split: option.splits)
  have "extends s s2"
    using ext_emit ext_lookup_id_add [OF 2] by (rule ext_trans)
  then show "extends s s'"
    unfolding s' using ext_push_type by (rule ext_trans)
  show "consistent s'" if "consistent s"
    unfolding s' using consistent_lookup_id_add [OF 2 consistent_emit [OF that]] by simp
qed

lemma convert_type_ext_consistent:
  "convert_type t s = Some (ty, s') \<Longrightarrow> extends s s' \<and> (consistent s \<longrightarrow> consistent s')"
proof (induction t arbitrary: s ty s' rule: convert_type_induct)
  case (step t)
  consider (hit) i where "interned t i s"
    | (comp) "missing t s" "composite t"
    | (struct) "missing t s" "plain_struct t"
    | (unsup) "missing t s" "unsupported t"
    | (basic) "missing t s" "\<not> composite t" "\<not> plain_struct t" "\<not> unsupported t"
    using missing_or_interned [of t s] by blast
  then show ?case
  proof cases
    case hit
    with step.prems show ?thesis by (simp add: convert_type_hit)
  next
    case comp
    with step.prems obtain e s1 where 1: "convert_type (elem_type t) s = Some (e, s1)"
      and 2: "add_type_node t (type_op t) (type_operands t e) s1 = Some (ty, s')"
      by (auto simp: convert_type_composite split: option.splits)
    from step.IH [OF comp(2) 1] add_type_node_ext [OF 2] show ?thesis
      by (blast intro: ext_trans)
  next
    case struct
    with step.prems show ?thesis by (auto simp: convert_type_struct ext_push_type)
  next
    case unsup
    with step.prems show ?thesis by (simp add: convert_type_unsupported)
  next
    case basic
    show ?thesis
    proof (cases "base t = OpTypeVoid \<or> base t = OpTypeBool")
      case True
      with basic step.prems have "s' = push_type t (next_id s) (emit Variables no_location (type_op t) 0 (type_operands t 0) s)"
        by (auto simp: convert_type_basic new_type_def)
      then show ?thesis
        using ext_trans [OF ext_emit ext_push_type] consistent_emit by simp
    next
      case False
      with basic step.prems have "add_type_node t (type_op t) (type_operands t 0) s = Some (ty, s')"
        by (simp add: convert_type_basic)
      from add_type_node_ext [OF this] show ?thesis by simp
    qed
  qed
qed

lemmas convert_type_ext = convert_type_ext_consistent [THEN conjunct1]

lemma convert_type_consistent:
  "convert_type t s = Some (ty, s') \<Longrightarrow> consistent s \<Longrightarrow> consistent s'"
  using convert_type_ext_consistent by blast

subsection \<open>The invariant of the type table\<close>

lemma lookup_ref_push_type [simp]: "lookup_ref i (push_type t j s) = lookup_ref i s"
  by (simp add: lookup_ref_def Let_def split: prod.splits)

lemma lookup_id_push_type [simp]: "lookup_id i (push_type t j s) = lookup_id i s"
  by (simp add: lookup_id_def split: option.splits)

lemma next_id_less_Suc:
  assumes "wf_parser s" and "room 1 s"
  shows "next_id s < next_id s + 1"
proof -
  from assms have "unat (next_id s) + unat (1 :: 32 word) < 2 ^ LENGTH(32)"
    by (simp add: wf_unat room_def)
  then have "unat (next_id s + 1) = unat (next_id s) + unat (1 :: 32 word)"
    by (simp only: unat_add_lem)
  then show ?thesis
    by (simp add: word_less_nat_alt)
qed

lemma wf_room: "wf_parser s \<Longrightarrow> room 0 s"
  by (simp add: wf_parser_def room_def)

text \<open>A fresh type node with its table entry keeps the table in order.\<close>

lemma tl_ok_new:
  fixes xs :: "Id list"
  assumes wf_parser: "wf_parser s" and ok: "tl_ok s" and room: "room 1 s" and miss: "missing t s"
    and t: "\<not> plain_struct t" "\<not> unsupported t" and opc: "opc \<noteq> OpTypeStruct"
  defines "s' \<equiv> push_type t (next_id s) (emit Variables no_location opc 0 xs s)"
  shows "tl_ok s'"
proof -
  let ?m = "emit Variables no_location opc 0 xs s"
  have lt: "next_id s < next_id s + 1"
    using wf_parser room by (rule next_id_less_Suc)
  have extends: "extends s s'"
    unfolding s'_def using ext_emit ext_push_type by (rule ext_trans)
  have new: "lookup_id (next_id s) s' =
      Some \<lparr>op = opc, result = next_id s, result_type = 0, operands = xs,
            index = length (instructions Variables s), location = no_location\<rparr>"
    unfolding s'_def using lookup_id_emit_new [OF wf_new_index [OF wf_parser]] by simp
  have old: "\<not> unsupported (fst e) \<and>
        (plain_struct (fst e) \<longrightarrow> snd e = definition' (fst e)) \<and>
        (\<not> plain_struct (fst e) \<longrightarrow>
           100 \<le> snd e \<and> snd e < next_id s' \<and>
           (\<exists>n. lookup_id (snd e) s' = Some n \<and> op n \<noteq> OpTypeStruct))"
    if e: "e \<in> set (type_lookup s)" for e
  proof -
    from ok e have 1: "\<not> unsupported (fst e)"
      and 2: "plain_struct (fst e) \<longrightarrow> snd e = definition' (fst e)"
      and 3: "\<not> plain_struct (fst e) \<longrightarrow> 100 \<le> snd e \<and> snd e < next_id s \<and>
           (\<exists>n. lookup_id (snd e) s = Some n \<and> op n \<noteq> OpTypeStruct)"
      by (auto simp: tl_ok_def)
    have "100 \<le> snd e \<and> snd e < next_id s' \<and>
           (\<exists>n. lookup_id (snd e) s' = Some n \<and> op n \<noteq> OpTypeStruct)"
      if "\<not> plain_struct (fst e)"
    proof -
      from 3 that obtain n where n: "100 \<le> snd e" "snd e < next_id s"
        "lookup_id (snd e) s = Some n" "op n \<noteq> OpTypeStruct"
        by blast
      from lookup_id_ext [OF n(3) extends] obtain n' where "lookup_id (snd e) s' = Some n'" "node_le n n'"
        by blast
      with n lt show ?thesis
        by (auto simp: s'_def node_le_def)
    qed
    with 1 2 show ?thesis by blast
  qed
  have fresh: "snd e \<noteq> next_id s" if "e \<in> set (type_lookup s)" "\<not> plain_struct (fst e)" for e
    using ok that by (auto simp: tl_ok_def)
  have inj: "fst e = fst e'"
    if "e \<in> set (type_lookup s')" "e' \<in> set (type_lookup s')"
      "\<not> plain_struct (fst e)" "\<not> plain_struct (fst e')" "snd e = snd e'" for e e'
  proof -
    from that(1,2) have "e \<in> set (type_lookup s) \<or> e = (t, next_id s)"
      and "e' \<in> set (type_lookup s) \<or> e' = (t, next_id s)"
      by (auto simp: s'_def)
    then show ?thesis
      using that(3-5) fresh ok unfolding tl_ok_def by (metis fst_conv snd_conv)
  qed
  have entry: "\<not> unsupported (fst e) \<and>
        (plain_struct (fst e) \<longrightarrow> snd e = definition' (fst e)) \<and>
        (\<not> plain_struct (fst e) \<longrightarrow>
           100 \<le> snd e \<and> snd e < next_id s' \<and>
           (\<exists>n. lookup_id (snd e) s' = Some n \<and> op n \<noteq> OpTypeStruct))"
    if "e \<in> set (type_lookup s')" for e
  proof -
    from that have "e \<in> set (type_lookup s) \<or> e = (t, next_id s)"
      by (auto simp: s'_def)
    then show ?thesis
    proof
      assume "e \<in> set (type_lookup s)"
      then show ?thesis by (rule old)
    next
      assume "e = (t, next_id s)"
      with t opc lt new wf_ge_100 [OF wf_parser] show ?thesis
        by (simp add: s'_def)
    qed
  qed
  show ?thesis
    unfolding tl_ok_def using entry inj by blast
qed

lemma tl_ok_struct:
  assumes ok: "tl_ok s" and t: "plain_struct t"
  shows "tl_ok (push_type t (definition' t) s)"
proof -
  from t have "\<not> unsupported t"
    by (simp add: plain_struct_def unsupported_def supported_base_def)
  with ok t show ?thesis
    unfolding tl_ok_def by (auto simp: Ball_def)
qed

lemma grows_refl [simp]: "grows t s s"
  by (simp add: grows_def)

lemma grows_missing:
  assumes "grows u s s1" and "missing t s" and "depth u < depth t"
  shows "missing t s1"
proof -
  from assms(1) obtain new where new: "type_lookup s1 = type_lookup s @ new"
    and d: "\<forall>e \<in> set new. depth (fst e) \<le> depth u"
    by (auto simp: grows_def)
  have "\<not> type_eq (fst e) t" if "e \<in> set new" for e
    using d that assms(3) type_eq_shape(4) [of "fst e" t] by fastforce
  with assms(2) new show ?thesis
    by (auto simp: missing_iff)
qed

lemma grows_push:
  assumes "grows u s s1" and "depth u \<le> depth t"
  shows "grows t s (push_type t i (emit sec loc opc ty xs s1))"
  using assms by (fastforce simp: grows_def)

lemma type_op_not_struct: "\<not> plain_struct t \<Longrightarrow> type_op t \<noteq> OpTypeStruct"
  by (auto simp: type_op_def plain_struct_def composite_def)

text \<open>What a fresh node gives, in one place.\<close>

lemma new_type_post:
  fixes xs :: "Id list"
  assumes wf_parser: "wf_parser s1" and ok: "tl_ok s1" and room: "room 1 s1" and miss: "missing t s1"
    and t: "\<not> plain_struct t" "\<not> unsupported t"
  defines "s' \<equiv> push_type t (next_id s1) (emit Variables no_location (type_op t) 0 xs s1)"
  shows "wf_parser s'" and "tl_ok s'" and "interned t (next_id s1) s'"
    and "length (id_lookup s') = Suc (length (id_lookup s1))"
proof -
  show "wf_parser s'" unfolding s'_def using wf_parser room by (simp add: wf_emit)
  show "tl_ok s'" unfolding s'_def
    using wf_parser ok room miss t type_op_not_struct [OF t(1)] by (rule tl_ok_new)
  have "missing t (emit Variables no_location (type_op t) 0 xs s1)"
    using miss by (simp add: missing_def)
  then show "interned t (next_id s1) s'"
    unfolding s'_def by (rule interned_push)
  show "length (id_lookup s') = Suc (length (id_lookup s1))"
    by (simp add: s'_def)
qed

subsection \<open>Every conversion succeeds and keeps the invariants\<close>

lemma grows_push_only: "grows t s (push_type t i s)"
  by (simp add: grows_def)

lemma composite_not_struct: "composite t \<Longrightarrow> \<not> plain_struct t" "composite t \<Longrightarrow> \<not> unsupported t"
  by (simp_all add: plain_struct_def unsupported_def)

lemma convert_type_fresh:
  fixes xs :: "Id list"
  assumes wf_parser: "wf_parser s1" and ok: "tl_ok s1" and room: "room 1 s1" and miss: "missing t s1"
    and t: "\<not> plain_struct t" "\<not> unsupported t"
    and g: "grows u s s1" "depth u \<le> depth t"
    and len: "length (id_lookup s1) \<le> length (id_lookup s) + depth t"
  defines "s' \<equiv> push_type t (next_id s1) (emit Variables no_location (type_op t) 0 xs s1)"
  shows "conv_post t s (next_id s1) s'"
proof -
  note p = new_type_post [OF wf_parser ok room miss t, of xs, folded s'_def]
  have "grows t s s'"
    unfolding s'_def using g by (rule grows_push)
  with p len show ?thesis
    by (simp add: conv_post_def resolved_def)
qed

lemma convert_type_total:
  "wf_parser s \<Longrightarrow> tl_ok s \<Longrightarrow> room (depth t + 1) s \<Longrightarrow>
   \<exists>ty s'. convert_type t s = Some (ty, s') \<and> conv_post t s ty s'"
proof (induction t arbitrary: s rule: convert_type_induct)
  case (step t)
  note wf_parser = \<open>wf_parser s\<close> and ok = \<open>tl_ok s\<close> and room = \<open>room (depth t + 1) s\<close>
  consider (hit) i where "interned t i s"
    | (comp) "missing t s" "composite t"
    | (struct) "missing t s" "plain_struct t"
    | (unsup) "missing t s" "unsupported t"
    | (basic) "missing t s" "\<not> composite t" "\<not> plain_struct t" "\<not> unsupported t"
    using missing_or_interned [of t s] by blast
  then show ?case
  proof cases
    case hit
    then have "convert_type t s = Some (i, s)" by (rule convert_type_hit)
    moreover have "conv_post t s i s"
      using wf_parser ok hit by (simp add: conv_post_def resolved_def)
    ultimately show ?thesis by blast
  next
    case comp
    have d: "depth (elem_type t) < depth t"
      using comp(2) by (rule depth_elem_type)
    with room have "room (depth (elem_type t) + 1) s"
      by (simp add: room_def)
    from step.IH [OF comp(2) wf_parser ok this]
    obtain e s1 where 1: "convert_type (elem_type t) s = Some (e, s1)"
      and post: "conv_post (elem_type t) s e s1"
      by blast
    from post have wf1: "wf_parser s1" and ok1: "tl_ok s1"
      and len1: "length (id_lookup s1) \<le> length (id_lookup s) + depth (elem_type t) + 1"
      and g1: "grows (elem_type t) s s1"
      by (simp_all add: conv_post_def)
    from len1 d room have room1: "room 1 s1"
      by (simp add: room_def)
    from len1 d have len: "length (id_lookup s1) \<le> length (id_lookup s) + depth t"
      by simp
    have miss1: "missing t s1"
      using g1 comp(1) d by (rule grows_missing)
    let ?s' = "push_type t (next_id s1)
                 (emit Variables no_location (type_op t) 0 (type_operands t e) s1)"
    have "convert_type t s = Some (next_id s1, ?s')"
      using comp 1 by (simp add: convert_type_composite add_type_node_wf [OF wf1])
    moreover have "conv_post t s (next_id s1) ?s'"
      using wf1 ok1 room1 miss1 composite_not_struct [OF comp(2)] g1 _ len
      by (rule convert_type_fresh) (use d in simp)
    ultimately show ?thesis by blast
  next
    case struct
    then have "convert_type t s = Some (definition' t, push_type t (definition' t) s)"
      by (rule convert_type_struct)
    moreover have "conv_post t s (definition' t) (push_type t (definition' t) s)"
      using wf_parser tl_ok_struct [OF ok struct(2)] interned_push [OF struct(1)]
      by (simp add: conv_post_def resolved_def grows_push_only)
    ultimately show ?thesis by blast
  next
    case unsup
    then have "convert_type t s = Some (0, s)" by (rule convert_type_unsupported)
    moreover have "conv_post t s 0 s"
      using wf_parser ok unsup(2) by (simp add: conv_post_def resolved_def)
    ultimately show ?thesis by blast
  next
    case basic
    let ?s' = "push_type t (next_id s)
                 (emit Variables no_location (type_op t) 0 (type_operands t 0) s)"
    have "convert_type t s = Some (next_id s, ?s')"
      using basic by (simp add: convert_type_basic add_type_node_wf [OF wf_parser] new_type_def)
    moreover have "conv_post t s (next_id s) ?s'"
      using wf_parser ok _ basic(1,3,4) grows_refl [of t s]
      by (rule convert_type_fresh) (use room in \<open>simp_all add: room_def\<close>)
    ultimately show ?thesis by blast
  qed
qed

subsection \<open>Builder calls extend the state\<close>

lemma keeps_refl [simp]: "keeps s s"
  by (simp add: keeps_def)

lemma keeps_trans: "keeps a b \<Longrightarrow> keeps b c \<Longrightarrow> keeps a c"
  by (auto simp: keeps_def intro: ext_trans)

lemma keeps_emit: "keeps s (emit sec loc opc ty xs s)"
  by (simp add: keeps_def ext_emit consistent_emit)

lemma keeps_lookup_id_add: "lookup_id_add i xs s = Some s' \<Longrightarrow> keeps s s'"
  by (simp add: keeps_def ext_lookup_id_add consistent_lookup_id_add)

lemma keeps_convert_type: "convert_type t s = Some (ty, s') \<Longrightarrow> keeps s s'"
  using convert_type_ext_consistent by (simp add: keeps_def)

lemma keeps_convert_param_types:
  "convert_param_types ts s = Some (tys, s') \<Longrightarrow> keeps s s'"
proof (induction ts arbitrary: s tys)
  case Nil
  then show ?case by simp
next
  case (Cons t ts)
  from Cons.prems obtain ty s1 tys' where 1: "convert_type t s = Some (ty, s1)"
    and 2: "convert_param_types ts s1 = Some (tys', s')"
    by (auto split: option.splits)
  from keeps_convert_type [OF 1] Cons.IH [OF 2] show ?case by (rule keeps_trans)
qed

lemma keeps_add_param_types:
  "add_param_types ty ps s = Some s' \<Longrightarrow> keeps s s'"
proof (induction ps arbitrary: s)
  case Nil
  then show ?case by simp
next
  case (Cons p ps)
  from Cons.prems obtain s1 where 1: "lookup_id_add ty [p] s = Some s1"
    and 2: "add_param_types ty ps s1 = Some s'"
    by (auto split: option.splits)
  from keeps_lookup_id_add [OF 1] Cons.IH [OF 2] show ?case by (rule keeps_trans)
qed

lemma keeps_convert_function_type:
  assumes "convert_function_type f s = Some (ty, s')"
  shows "keeps s s'"
proof -
  from assms obtain ret s1 pts s2 s4 where 1: "convert_type (return_type f) s = Some (ret, s1)"
    and 2: "convert_param_types (parameter_list f) s1 = Some (pts, s2)"
    and 4: "lookup_id_add (next_id s2) [ret] (emit Variables no_location OpTypeFunction 0 [] s2) = Some s4"
    and 5: "add_param_types (next_id s2) pts s4 = Some s'"
    by (auto simp: convert_function_type_def add_node_emit split: option.splits)
  have "keeps s s2"
    using keeps_convert_type [OF 1] keeps_convert_param_types [OF 2] by (rule keeps_trans)
  then have "keeps s (emit Variables no_location OpTypeFunction 0 [] s2)"
    using keeps_emit by (rule keeps_trans)
  then have "keeps s s4"
    using keeps_lookup_id_add [OF 4] by (rule keeps_trans)
  then show ?thesis
    using keeps_add_param_types [OF 5] by (rule keeps_trans)
qed

lemma keeps_typed_node:
  assumes "convert_type t s = Some (ty, s1)"
    and "lookup_id_add (next_id s1) xs (emit sec loc opc ty [] s1) = Some s'"
  shows "keeps s s'"
proof -
  have "keeps s (emit sec loc opc ty [] s1)"
    using keeps_convert_type [OF assms(1)] keeps_emit by (rule keeps_trans)
  then show ?thesis
    using keeps_lookup_id_add [OF assms(2)] by (rule keeps_trans)
qed

lemma keeps_convert_constant:
  assumes "convert_constant t v s = Some (i, s')"
  shows "keeps s s'"
proof (cases "v = 0")
  case True
  with assms obtain ty s1 where 1: "convert_type t s = Some (ty, s1)"
    and "s' = emit Variables no_location OpConstantNull ty [] s1"
    by (auto simp: convert_constant_def add_node_emit split: option.splits)
  then show ?thesis
    using keeps_trans [OF keeps_convert_type [OF 1] keeps_emit] by simp
next
  case False
  with assms obtain ty s1 where "convert_type t s = Some (ty, s1)"
    and "lookup_id_add (next_id s1) [v] (emit Variables no_location OpConstant ty [] s1) = Some s'"
    by (auto simp: convert_constant_def add_node_emit split: option.splits)
  then show ?thesis by (rule keeps_typed_node)
qed

lemma keeps_add_cast_node:
  assumes "add_cast_node sec loc from to input s = Some (r, s')"
  shows "keeps s s'"
proof -
  consider (int) "base to = OpTypeInt" | (float) "base to = OpTypeFloat"
    | (other) "base to \<noteq> OpTypeInt" "base to \<noteq> OpTypeFloat"
    by blast
  then show ?thesis
  proof cases
    case int
    with assms obtain ty s1 where "convert_type to s = Some (ty, s1)"
      and "lookup_id_add (next_id s1) [input]
             (emit sec loc (if is_signed to then OpConvertFToS else OpConvertFToU) ty [] s1) = Some s'"
      by (auto simp: add_cast_node_def add_node_emit split: option.splits if_splits)
    then show ?thesis by (rule keeps_typed_node)
  next
    case float
    with assms obtain ty s1 where "convert_type to s = Some (ty, s1)"
      and "lookup_id_add (next_id s1) [input]
             (emit sec loc (if is_signed from then OpConvertSToF else OpConvertUToF) ty [] s1) = Some s'"
      by (auto simp: add_cast_node_def add_node_emit split: option.splits if_splits)
    then show ?thesis by (rule keeps_typed_node)
  next
    case other
    with assms have "s' = s"
      by (cases "base to") (simp_all add: add_cast_node_def)
    then show ?thesis by simp
  qed
qed

lemma keeps_call: "call c s = Some s' \<Longrightarrow> keeps s s'"
proof (cases c)
  case (AddNode sec loc opc ty)
  then show "call c s = Some s' \<Longrightarrow> keeps s s'"
    using keeps_emit by (auto simp: add_node_emit)
next
  case (AddOperands i xs)
  then show "call c s = Some s' \<Longrightarrow> keeps s s'"
    by (simp add: keeps_lookup_id_add)
next
  case (ConvertType t)
  then show "call c s = Some s' \<Longrightarrow> keeps s s'"
    using keeps_convert_type by auto
next
  case (ConvertFunctionType f)
  then show "call c s = Some s' \<Longrightarrow> keeps s s'"
    using keeps_convert_function_type by auto
next
  case (ConvertConstant t v)
  then show "call c s = Some s' \<Longrightarrow> keeps s s'"
    using keeps_convert_constant by auto
next
  case (AddCastNode sec loc src dst input)
  then show "call c s = Some s' \<Longrightarrow> keeps s s'"
    using keeps_add_cast_node by auto
qed

lemma keeps_calls: "calls cs s = Some s' \<Longrightarrow> keeps s s'"
proof (induction cs arbitrary: s)
  case Nil
  then show ?case by simp
next
  case (Cons c cs)
  from Cons.prems obtain s1 where 1: "call c s = Some s1" and 2: "calls cs s1 = Some s'"
    by (auto split: option.splits)
  from keeps_call [OF 1] Cons.IH [OF 2] show ?case by (rule keeps_trans)
qed

lemma tl_ok_new_parser: "tl_ok new_parser"
  by (simp add: tl_ok_def new_parser_def)

subsection \<open>More on emitted nodes and conversions\<close>

lemma lookup_id_emit_old:
  assumes "lookup_id i s = Some n"
  shows "lookup_id i (emit sec loc opc ty xs s) = Some n"
proof -
  from assms obtain sec' pos where r: "lookup_ref i s = Some (sec', pos)"
    and n: "n = instructions sec' s ! pos"
    by (auto simp: lookup_id_def split: option.splits)
  from r have "pos < length (instructions sec' s)"
    by (simp add: lookup_ref_Some)
  with lookup_ref_ext [OF r ext_emit, of sec loc opc ty xs] n show ?thesis
    by (auto simp: lookup_id_def nth_append)
qed

lemma interned_emit [simp]: "interned t i (emit sec loc opc ty xs s) = interned t i s"
  by (simp add: interned_def)

lemma resolved_emit [simp]: "resolved t i (emit sec loc opc ty xs s) = resolved t i s"
  by (simp add: resolved_def)

lemma tl_ok_emit:
  assumes wf_parser: "wf_parser s" and ok: "tl_ok s" and room: "room 1 s"
  shows "tl_ok (emit sec loc opc ty xs s)"
proof -
  let ?s' = "emit sec loc opc ty xs s"
  have lt: "next_id s < next_id s + 1"
    using wf_parser room by (rule next_id_less_Suc)
  have "100 \<le> snd e \<and> snd e < next_id ?s' \<and>
           (\<exists>n. lookup_id (snd e) ?s' = Some n \<and> op n \<noteq> OpTypeStruct)"
    if "e \<in> set (type_lookup s)" "\<not> plain_struct (fst e)" for e
  proof -
    from ok that obtain n where n: "100 \<le> snd e" "snd e < next_id s"
      "lookup_id (snd e) s = Some n" "op n \<noteq> OpTypeStruct"
      unfolding tl_ok_def by blast
    from lookup_id_emit_old [OF n(3)] n lt show ?thesis
      by auto
  qed
  with ok show ?thesis
    unfolding tl_ok_def by (auto simp: Ball_def)
qed

lemma depth_le: "depth t \<le> 3"
  by (simp add: depth_def)

lemma room_after:
  assumes "room (k + j) s" and "length (id_lookup s') \<le> length (id_lookup s) + j"
  shows "room k s'"
  using assms by (simp add: room_def)

lemma convert_type_ok:
  assumes "wf_parser s" and "tl_ok s" and "room 4 s"
  shows "\<exists>ty s1. convert_type t s = Some (ty, s1) \<and> wf_parser s1 \<and> tl_ok s1 \<and>
           length (id_lookup s1) \<le> length (id_lookup s) + 4 \<and> extends s s1 \<and> resolved t ty s1"
proof -
  from assms(3) depth_le [of t] have "room (depth t + 1) s"
    by (simp add: room_def)
  from convert_type_total [OF assms(1,2) this]
  obtain ty s1 where 1: "convert_type t s = Some (ty, s1)" and p: "conv_post t s ty s1"
    by blast
  from p depth_le [of t] have "length (id_lookup s1) \<le> length (id_lookup s) + 4"
    by (simp add: conv_post_def)
  with 1 p convert_type_ext [OF 1] show ?thesis
    by (simp add: conv_post_def)
qed

lemma resolved_bound:
  assumes "tl_ok s" and "resolved t ty s"
  shows "ty = 0 \<or> (plain_struct t \<and> ty = definition' t) \<or> (100 \<le> ty \<and> ty < next_id s)"
proof (cases "interned t ty s")
  case True
  from interned_entry [OF this] obtain t' where e: "(t', ty) \<in> set (type_lookup s)"
    and eq: "type_eq t' t"
    by blast
  from assms(1) e have "(plain_struct t' \<and> ty = definition' t') \<or> (100 \<le> ty \<and> ty < next_id s)"
    unfolding tl_ok_def by fastforce
  with eq show ?thesis
    by (auto simp: type_eq_shape)
next
  case False
  with assms(2) show ?thesis by (simp add: resolved_def)
qed

lemma resolved_unique:
  assumes "tl_ok s" and "resolved t a s" and "resolved t b s"
  shows "a = b"
  using assms tl_ok_supported [OF assms(1)] interned_not_missing interned_unique
  unfolding resolved_def by blast

text \<open>A composite type that is not yet in the table.\<close>

lemma convert_type_composite_wf:
  assumes wf_parser: "wf_parser s" and ok: "tl_ok s" and room: "room 4 s"
    and miss: "missing t s" and comp: "composite t"
  shows "\<exists>e s1. convert_type (elem_type t) s = Some (e, s1) \<and> wf_parser s1 \<and> tl_ok s1 \<and>
           resolved (elem_type t) e s1 \<and> room 1 s1 \<and> missing t s1 \<and>
           length (id_lookup s1) \<le> length (id_lookup s) + 3 \<and>
           convert_type t s =
             Some (next_id s1,
               push_type t (next_id s1)
                 (emit Variables no_location (type_op t) 0 (type_operands t e) s1))"
proof -
  have d: "depth (elem_type t) < depth t"
    using comp by (rule depth_elem_type)
  with room depth_le [of t] have "room (depth (elem_type t) + 1) s"
    by (simp add: room_def)
  from convert_type_total [OF wf_parser ok this]
  obtain e s1 where 1: "convert_type (elem_type t) s = Some (e, s1)"
    and post: "conv_post (elem_type t) s e s1"
    by blast
  from post have wf1: "wf_parser s1" and ok1: "tl_ok s1"
    and len1: "length (id_lookup s1) \<le> length (id_lookup s) + depth (elem_type t) + 1"
    and g1: "grows (elem_type t) s s1" and r1: "resolved (elem_type t) e s1"
    by (simp_all add: conv_post_def)
  from len1 d depth_le [of t] have len: "length (id_lookup s1) \<le> length (id_lookup s) + 3"
    by simp
  with room have room1: "room 1 s1"
    by (simp add: room_def)
  have miss1: "missing t s1"
    using g1 miss d by (rule grows_missing)
  have "convert_type t s =
      Some (next_id s1,
        push_type t (next_id s1)
          (emit Variables no_location (type_op t) 0 (type_operands t e) s1))"
    using miss comp 1 by (simp add: convert_type_composite add_type_node_wf [OF wf1])
  with 1 wf1 ok1 r1 room1 miss1 len show ?thesis by blast
qed

subsection \<open>Constants\<close>

lemma convert_constant_resolved:
  assumes "wf_parser s" and "convert_type t s = Some (ty, s1)" and "wf_parser s1"
  shows "convert_constant t v s =
           Some (next_id s1,
             emit Variables no_location (if v = 0 then OpConstantNull else OpConstant) ty
               (if v = 0 then [] else [v]) s1)"
  using lookup_id_add_emit [OF wf_new_index [OF assms(3)], of "[v]" Variables no_location OpConstant ty "[]"]
  by (simp add: convert_constant_def assms(2) add_node_emit)

subsection \<open>Function types\<close>

lemma add_param_types_emit:
  assumes "unat (next_id s - 100) = length (id_lookup s)"
  shows "add_param_types (next_id s) ps (emit sec loc opc ty ys s) =
           Some (emit sec loc opc ty (ys @ ps) s)"
proof (induction ps arbitrary: ys)
  case Nil
  show ?case by simp
next
  case (Cons p ps)
  show ?case
    using Cons.IH [of "ys @ [p]"] by (simp add: lookup_id_add_emit [OF assms])
qed

lemma convert_param_types_total:
  "wf_parser s \<Longrightarrow> tl_ok s \<Longrightarrow> room (4 * length ts) s \<Longrightarrow>
   \<exists>ids s'. convert_param_types ts s = Some (ids, s') \<and> wf_parser s' \<and> tl_ok s' \<and>
     length (id_lookup s') \<le> length (id_lookup s) + 4 * length ts \<and> extends s s' \<and>
     list_all2 (\<lambda>t i. resolved t i s') ts ids"
proof (induction ts arbitrary: s)
  case Nil
  then show ?case by simp
next
  case (Cons t ts)
  from Cons.prems(3) have "room 4 s"
    by (simp add: room_def)
  from convert_type_ok [OF Cons.prems(1,2) this, of t]
  obtain ty s1 where 1: "convert_type t s = Some (ty, s1)" and wf1: "wf_parser s1" and ok1: "tl_ok s1"
    and len1: "length (id_lookup s1) \<le> length (id_lookup s) + 4" and e1: "extends s s1"
    and r1: "resolved t ty s1"
    by blast
  from Cons.prems(3) len1 have "room (4 * length ts) s1"
    by (simp add: room_def)
  from Cons.IH [OF wf1 ok1 this]
  obtain ids s' where 2: "convert_param_types ts s1 = Some (ids, s')" and wf': "wf_parser s'"
    and ok': "tl_ok s'" and len': "length (id_lookup s') \<le> length (id_lookup s1) + 4 * length ts"
    and e': "extends s1 s'" and r': "list_all2 (\<lambda>t i. resolved t i s') ts ids"
    by blast
  have "convert_param_types (t # ts) s = Some (ty # ids, s')"
    using 1 2 by simp
  moreover have "length (id_lookup s') \<le> length (id_lookup s) + 4 * length (t # ts)"
    using len1 len' by simp
  moreover have "extends s s'"
    using e1 e' by (rule ext_trans)
  moreover have "list_all2 (\<lambda>t i. resolved t i s') (t # ts) (ty # ids)"
    using r' resolved_mono [OF r1 e'] by simp
  ultimately show ?case
    using wf' ok' by blast
qed

lemma resolved_map:
  assumes "tl_ok s" and "list_all2 (\<lambda>t i. resolved t i s) ts ids"
  shows "map (\<lambda>t. convert_type t s) ts = map (\<lambda>i. Some (i, s)) ids"
  using assms(2) by (induction rule: list_all2_induct) (simp_all add: resolved_convert [OF assms(1)])

lemma convert_function_type_wf:
  assumes "wf_parser s" and "tl_ok s" and "room (4 * length (parameter_list f) + 5) s"
  shows "\<exists>ret ids s2. wf_parser s2 \<and> tl_ok s2 \<and> room 1 s2 \<and>
           resolved (return_type f) ret s2 \<and>
           list_all2 (\<lambda>t i. resolved t i s2) (parameter_list f) ids \<and>
           length (id_lookup s2) \<le> length (id_lookup s) + 4 * length (parameter_list f) + 4 \<and>
           convert_function_type f s =
             Some (next_id s2, emit Variables no_location OpTypeFunction 0 (ret # ids) s2)"
proof -
  let ?ts = "parameter_list f"
  from assms(3) have "room 4 s" by (simp add: room_def)
  from convert_type_ok [OF assms(1,2) this, of "return_type f"]
  obtain ret s1 where 1: "convert_type (return_type f) s = Some (ret, s1)" and wf1: "wf_parser s1"
    and ok1: "tl_ok s1" and len1: "length (id_lookup s1) \<le> length (id_lookup s) + 4"
    and r1: "resolved (return_type f) ret s1"
    by blast
  from assms(3) len1 have "room (4 * length ?ts) s1" by (simp add: room_def)
  from convert_param_types_total [OF wf1 ok1 this]
  obtain ids s2 where 2: "convert_param_types ?ts s1 = Some (ids, s2)" and wf2: "wf_parser s2"
    and ok2: "tl_ok s2" and len2: "length (id_lookup s2) \<le> length (id_lookup s1) + 4 * length ?ts"
    and e2: "extends s1 s2" and r2: "list_all2 (\<lambda>t i. resolved t i s2) ?ts ids"
    by blast
  from assms(3) len1 len2 have room2: "room 1 s2" by (simp add: room_def)
  from len1 len2 have len: "length (id_lookup s2) \<le> length (id_lookup s) + 4 * length ?ts + 4"
    by simp
  note idx = wf_new_index [OF wf2]
  have "convert_function_type f s =
      Some (next_id s2, emit Variables no_location OpTypeFunction 0 (ret # ids) s2)"
    using lookup_id_add_emit [OF idx, of "[ret]" Variables no_location OpTypeFunction 0 "[]"]
      add_param_types_emit [OF idx, of ids Variables no_location OpTypeFunction 0 "[ret]"]
    by (simp add: convert_function_type_def 1 2 add_node_emit)
  with wf2 ok2 room2 resolved_mono [OF r1 e2] r2 len show ?thesis by blast
qed

subsection \<open>Equal types convert alike\<close>

lemma type_eq_branch:
  assumes "type_eq a b"
  shows "elem_type a = elem_type b" and "type_op a = type_op b"
  using assms
  by (simp_all add: type_eq_def elem_type_def type_op_def is_array_def is_vector_def
      is_matrix_def)

lemma convert_type_type_eq:
  assumes wf_parser: "wf_parser s" and ok: "tl_ok s" and room: "room 4 s" and eq: "type_eq a b"
  shows "\<exists>i sa sb. convert_type a s = Some (i, sa) \<and> convert_type b s = Some (i, sb) \<and>
           next_id sb = next_id sa \<and> id_lookup sb = id_lookup sa"
proof -
  note shape = type_eq_shape [OF eq]
  from room have room1: "room 1 s" by (simp add: room_def)
  consider (hit) i where "interned a i s"
    | (comp) "missing a s" "composite a"
    | (struct) "missing a s" "plain_struct a"
    | (unsup) "missing a s" "unsupported a"
    | (basic) "missing a s" "\<not> composite a" "\<not> plain_struct a" "\<not> unsupported a"
    using missing_or_interned [of a s] by blast
  then show ?thesis
  proof cases
    case hit
    then have "interned b i s" by (simp add: interned_eq [OF eq])
    with hit show ?thesis by (auto simp: convert_type_hit)
  next
    case comp
    then have mb: "missing b s" and cb: "composite b"
      by (simp_all add: missing_eq [OF eq] shape)
    from convert_type_composite_wf [OF wf_parser ok room comp]
    obtain e s1 where ea: "convert_type (elem_type a) s = Some (e, s1)"
      and ca': "convert_type a s =
             Some (next_id s1,
               push_type a (next_id s1)
                 (emit Variables no_location (type_op a) 0 (type_operands a e) s1))"
      by blast
    from convert_type_composite_wf [OF wf_parser ok room mb cb]
    obtain e' s1' where eb: "convert_type (elem_type b) s = Some (e', s1')"
      and cb': "convert_type b s =
             Some (next_id s1',
               push_type b (next_id s1')
                 (emit Variables no_location (type_op b) 0 (type_operands b e') s1'))"
      by blast
    from ea eb have "e' = e" and "s1' = s1"
      by (simp_all add: type_eq_branch [OF eq])
    with ca' cb' show ?thesis by simp
  next
    case struct
    then have "missing b s" and "plain_struct b"
      by (simp_all add: missing_eq [OF eq] shape)
    with struct shape(5) show ?thesis
      by (simp add: convert_type_struct)
  next
    case unsup
    then have "missing b s" and "unsupported b"
      by (simp_all add: missing_eq [OF eq] shape)
    with unsup show ?thesis
      by (simp add: convert_type_unsupported)
  next
    case basic
    then have mb: "missing b s" "\<not> composite b" "\<not> plain_struct b" "\<not> unsupported b"
      by (simp_all add: missing_eq [OF eq] shape)
    have "convert_type a s =
        Some (next_id s,
          push_type a (next_id s)
            (emit Variables no_location (type_op a) 0 (type_operands a 0) s))"
      using basic by (simp add: convert_type_basic add_type_node_wf [OF wf_parser] new_type_def)
    moreover have "convert_type b s =
        Some (next_id s,
          push_type b (next_id s)
            (emit Variables no_location (type_op b) 0 (type_operands b 0) s))"
      using mb by (simp add: convert_type_basic add_type_node_wf [OF wf_parser] new_type_def)
    ultimately show ?thesis by simp
  qed
qed

subsection \<open>Nodes with a result type\<close>

lemma typed_node:
  fixes opc :: Op and xs :: "Id list"
  assumes wf_parser: "wf_parser s1" and ok: "tl_ok s1" and room: "room 1 s1" and r: "resolved t ty s1"
  defines "s' \<equiv> emit Variables no_location opc ty xs s1"
  shows "wf_parser s'" and "tl_ok s'" and "convert_type t s' = Some (ty, s')"
    and "\<exists>n. lookup_id (next_id s1) s' = Some n \<and> op n = opc \<and> result_type n = ty \<and>
           operands n = xs"
proof -
  show "wf_parser s'" unfolding s'_def using wf_parser room by (rule wf_emit)
  show ok': "tl_ok s'" unfolding s'_def using wf_parser ok room by (rule tl_ok_emit)
  from r have "resolved t ty s'" by (simp add: s'_def)
  with ok' show "convert_type t s' = Some (ty, s')" by (rule resolved_convert)
  show "\<exists>n. lookup_id (next_id s1) s' = Some n \<and> op n = opc \<and> result_type n = ty \<and>
           operands n = xs"
    unfolding s'_def by (simp add: lookup_id_emit_new [OF wf_new_index [OF wf_parser]])
qed

lemma constant_node:
  assumes wf_parser: "wf_parser s" and ok: "tl_ok s" and room: "room (k + 5) s"
  shows "\<exists>ty s1. wf_parser s1 \<and> tl_ok s1 \<and> resolved t ty s1 \<and> room (k + 1) s1 \<and>
           length (id_lookup s1) \<le> length (id_lookup s) + 4 \<and>
           convert_constant t v s =
             Some (next_id s1,
               emit Variables no_location (if v = 0 then OpConstantNull else OpConstant) ty
                 (if v = 0 then [] else [v]) s1)"
proof -
  from room have "room 4 s" by (simp add: room_def)
  from convert_type_ok [OF wf_parser ok this, of t]
  obtain ty s1 where 1: "convert_type t s = Some (ty, s1)" and wf1: "wf_parser s1" and ok1: "tl_ok s1"
    and len1: "length (id_lookup s1) \<le> length (id_lookup s) + 4" and r1: "resolved t ty s1"
    by blast
  from room len1 have "room (k + 1) s1" by (simp add: room_def)
  with wf1 ok1 r1 len1 convert_constant_resolved [OF wf_parser 1 wf1, of v] show ?thesis by blast
qed

lemma room_new_parser: "room k new_parser \<longleftrightarrow> 100 + k < 2 ^ 32"
  by (simp add: room_def new_parser_def)

text \<open>
  The element type of the array branch is built from base, size, rows, cols and
  signedness alone: the \<open>definition\<close> of the array type is not passed on. An array of a
  declared struct gets the operand 0, although the struct itself converts to 100.
\<close>

lemma array_of_struct_element_operand:
  "map_option fst (convert_type struct_type struct_declared_parser) = Some 100 \<and>
   map_option (\<lambda>r. map_option operands (lookup_id (fst r) (snd r)))
     (convert_type (struct_type\<lparr>array_length := 5, array_lenghth_expression := 7\<rparr>)
        struct_declared_parser) = Some (Some [0, 7])"
  by code_simp

subsection \<open>The parser with one struct declaration\<close>

lemma wf_struct_declared_parser: "wf_parser struct_declared_parser"
  unfolding struct_declared_parser_def add_node_emit snd_conv
  by (rule wf_emit [OF wf_new_parser]) (simp add: room_new_parser)

lemma tl_ok_struct_declared_parser: "tl_ok struct_declared_parser"
  by (simp add: tl_ok_def struct_declared_parser_def add_node_emit new_parser_def)

lemma room_struct_declared_parser: "room k struct_declared_parser \<longleftrightarrow> 101 + k < 2 ^ 32"
  by (simp add: room_def struct_declared_parser_def add_node_emit new_parser_def)

subsection \<open>The invariants along builder calls\<close>

lemma wf_lookup_id_add:
  assumes "lookup_id_add i xs s = Some s'" and "wf_parser s"
  shows "wf_parser s'" and "id_lookup s' = id_lookup s" and "type_lookup s' = type_lookup s"
    and "next_id s' = next_id s"
proof -
  from assms(1) show il: "id_lookup s' = id_lookup s" and "type_lookup s' = type_lookup s"
    and "next_id s' = next_id s"
    by (auto simp: lookup_id_add_def split: option.splits)
  from consistent_lookup_id_add [OF assms(1)] assms(2) il show "wf_parser s'"
    by (simp add: wf_parser_def)
qed

lemma tl_ok_lookup_id_add:
  assumes add: "lookup_id_add i xs s = Some s'" and wf_parser: "wf_parser s" and ok: "tl_ok s"
  shows "tl_ok s'"
proof -
  note same = wf_lookup_id_add(3,4) [OF add wf_parser]
  have "\<exists>n. lookup_id k s' = Some n \<and> op n \<noteq> OpTypeStruct"
    if "lookup_id k s = Some n" "op n \<noteq> OpTypeStruct" for k n
    using lookup_id_ext [OF that(1) ext_lookup_id_add [OF add]] that(2)
    by (auto simp: node_le_def)
  with ok show ?thesis
    unfolding tl_ok_def same by (auto simp: Ball_def) blast+
qed

lemma add_cast_node_wf:
  assumes wf_parser: "wf_parser s" and ok: "tl_ok s" and room: "room 5 s"
    and c: "add_cast_node sec loc src dst input s = Some (r, s')"
  shows "wf_parser s' \<and> tl_ok s' \<and> length (id_lookup s') \<le> length (id_lookup s) + 5"
proof -
  from room have "room 4 s" by (simp add: room_def)
  from convert_type_ok [OF wf_parser ok this, of dst]
  obtain ty s1 where 1: "convert_type dst s = Some (ty, s1)" and wf1: "wf_parser s1" and ok1: "tl_ok s1"
    and len1: "length (id_lookup s1) \<le> length (id_lookup s) + 4"
    by blast
  from room len1 have room1: "room 1 s1" by (simp add: room_def)
  have node: "wf_parser (emit sec loc opc ty [input] s1) \<and> tl_ok (emit sec loc opc ty [input] s1) \<and>
      length (id_lookup (emit sec loc opc ty [input] s1)) \<le> length (id_lookup s) + 5" for opc
    using wf_emit [OF wf1 room1] tl_ok_emit [OF wf1 ok1 room1] len1 by simp
  note add = lookup_id_add_emit [OF wf_new_index [OF wf1], of "[input]" sec loc _ ty "[]"]
  consider (int) "base dst = OpTypeInt" | (float) "base dst = OpTypeFloat"
    | (other) "base dst \<noteq> OpTypeInt" "base dst \<noteq> OpTypeFloat"
    by blast
  then show ?thesis
  proof cases
    case int
    with c have "s' = emit sec loc (if is_signed dst then OpConvertFToS else OpConvertFToU) ty [input] s1"
      using add by (auto simp: add_cast_node_def 1 add_node_emit split: if_splits)
    with node show ?thesis by simp
  next
    case float
    with c have "s' = emit sec loc (if is_signed src then OpConvertSToF else OpConvertUToF) ty [input] s1"
      using add by (auto simp: add_cast_node_def 1 add_node_emit split: if_splits)
    with node show ?thesis by simp
  next
    case other
    with c have "s' = s"
      by (cases "base dst") (simp_all add: add_cast_node_def)
    with wf_parser ok show ?thesis by simp
  qed
qed

lemma call_invariant:
  assumes wf_parser: "wf_parser s" and ok: "tl_ok s" and room: "room (cost c) s" and c: "call c s = Some s'"
  shows "wf_parser s' \<and> tl_ok s' \<and> length (id_lookup s') \<le> length (id_lookup s) + cost c"
proof (cases c)
  case (AddNode sec loc opc ty)
  with c room have "s' = emit sec loc opc ty [] s" and "room 1 s"
    by (simp_all add: add_node_emit)
  with wf_parser ok show ?thesis
    by (simp add: wf_emit tl_ok_emit AddNode)
next
  case (AddOperands i xs)
  with c have add: "lookup_id_add i xs s = Some s'" by simp
  from wf_lookup_id_add(1,2) [OF add wf_parser] tl_ok_lookup_id_add [OF add wf_parser ok] show ?thesis
    by simp
next
  case (ConvertType t)
  with room have "room 4 s" by simp
  from convert_type_ok [OF wf_parser ok this, of t] c show ?thesis
    by (auto simp: ConvertType)
next
  case (ConvertFunctionType f)
  with room have "room (4 * length (parameter_list f) + 5) s" by simp
  from convert_function_type_wf [OF wf_parser ok this]
  obtain ret ids s2 where wf2: "wf_parser s2" and ok2: "tl_ok s2" and room2: "room 1 s2"
    and len: "length (id_lookup s2) \<le> length (id_lookup s) + 4 * length (parameter_list f) + 4"
    and r: "convert_function_type f s =
             Some (next_id s2, emit Variables no_location OpTypeFunction 0 (ret # ids) s2)"
    by blast
  from c r have "s' = emit Variables no_location OpTypeFunction 0 (ret # ids) s2"
    by (simp add: ConvertFunctionType)
  with wf2 ok2 room2 len show ?thesis
    by (simp add: wf_emit tl_ok_emit ConvertFunctionType)
next
  case (ConvertConstant t v)
  with room have "room (0 + 5) s" by simp
  from constant_node [OF wf_parser ok this, of t v]
  obtain ty s1 where wf1: "wf_parser s1" and ok1: "tl_ok s1" and room1: "room (0 + 1) s1"
    and len: "length (id_lookup s1) \<le> length (id_lookup s) + 4"
    and r: "convert_constant t v s =
          Some (next_id s1,
            emit Variables no_location (if v = 0 then OpConstantNull else OpConstant) ty
              (if v = 0 then [] else [v]) s1)"
    by blast
  from room1 have room1': "room 1 s1" by simp
  from c r have "s' = emit Variables no_location (if v = 0 then OpConstantNull else OpConstant) ty
              (if v = 0 then [] else [v]) s1"
    by (simp add: ConvertConstant)
  with wf1 ok1 room1' len show ?thesis
    by (simp add: wf_emit tl_ok_emit ConvertConstant)
next
  case (AddCastNode sec loc src dst input)
  with room have room5: "room 5 s" by simp
  from c obtain r where "add_cast_node sec loc src dst input s = Some (r, s')"
    by (auto simp: AddCastNode)
  from add_cast_node_wf [OF wf_parser ok room5 this] show ?thesis
    by (simp add: AddCastNode)
qed

lemma calls_invariant:
  "wf_parser s \<Longrightarrow> tl_ok s \<Longrightarrow> room (sum_list (map cost cs)) s \<Longrightarrow> calls cs s = Some s' \<Longrightarrow>
   wf_parser s' \<and> tl_ok s'"
proof (induction cs arbitrary: s)
  case Nil
  then show ?case by simp
next
  case (Cons c cs)
  from Cons.prems(4) obtain s1 where 1: "call c s = Some s1" and 2: "calls cs s1 = Some s'"
    by (auto split: option.splits)
  from Cons.prems(3) have "room (cost c) s"
    by (simp add: room_def)
  from call_invariant [OF Cons.prems(1,2) this 1]
  have wf1: "wf_parser s1" and ok1: "tl_ok s1"
    and len: "length (id_lookup s1) \<le> length (id_lookup s) + cost c"
    by simp_all
  from Cons.prems(3) len have "room (sum_list (map cost cs)) s1"
    by (simp add: room_def)
  from Cons.IH [OF wf1 ok1 this 2] show ?case .
qed


section \<open>The claims\<close>

text \<open>
  Claim C1 as stated fails on a new parser, which meets every other hypothesis, for a
  struct type whose \<open>definition\<close> 100 names no node yet: the struct converts to 100, its
  definition, and the array of it, which differs in the array length only, gets the
  first fresh identifier, 100 as well.
\<close>

theorem undeclared_struct_counterexample:
  "wf_parser new_parser \<and> tl_ok new_parser \<and> room 8 new_parser \<and>
   (struct_type\<lparr>array_length := 5\<rparr>)\<lparr>array_length := array_length struct_type\<rparr> = struct_type \<and>
   array_length struct_type \<noteq> array_length (struct_type\<lparr>array_length := 5\<rparr>) \<and>
   map_option fst (convert_type struct_type new_parser) = Some 100 \<and>
   map_option fst
     (convert_type (struct_type\<lparr>array_length := 5\<rparr>)
        (snd (the (convert_type struct_type new_parser)))) = Some 100"
proof -
  have "(struct_type\<lparr>array_length := 5\<rparr>)\<lparr>array_length := array_length struct_type\<rparr> = struct_type"
    and "array_length struct_type \<noteq> array_length (struct_type\<lparr>array_length := 5\<rparr>)"
    by (simp_all add: struct_type_def mk_type_info_def)
  moreover have "map_option fst (convert_type struct_type new_parser) = Some 100"
    by code_simp
  moreover have "map_option fst
     (convert_type (struct_type\<lparr>array_length := 5\<rparr>)
        (snd (the (convert_type struct_type new_parser)))) = Some 100"
    by code_simp
  moreover have "room 8 new_parser"
    by (simp add: room_new_parser)
  ultimately show ?thesis
    using wf_new_parser tl_ok_new_parser by simp
qed

text \<open>
  Claim C1, amended. In a well-formed state with room for eight identifiers: two types that
  are equal (whatever their qualifiers) convert to the same identifier, and the second
  call changes nothing; two types that differ in their array length only convert to
  different identifiers, provided that a struct type refers to an existing struct
  declaration (its \<open>definition\<close> is the identifier of an \<open>OpTypeStruct\<close> node).
\<close>

theorem convert_type_interning:
  assumes "wf_parser s" and "tl_ok s" and "room 8 s"
  shows "(type_eq a b \<longrightarrow>
            (\<exists>i s1. convert_type a s = Some (i, s1) \<and> convert_type b s1 = Some (i, s1))) \<and>
         (type_eq (a\<lparr>array_length := array_length b\<rparr>) b \<and> array_length a \<noteq> array_length b \<and>
          struct_declared a s \<longrightarrow>
            (\<exists>i s1 j s2. convert_type a s = Some (i, s1) \<and> convert_type b s1 = Some (j, s2) \<and>
               i \<noteq> j))"
proof -
  from assms(3) have "room 4 s" by (simp add: room_def)
  from convert_type_ok [OF assms(1,2) this, of a]
  obtain i s1 where 1: "convert_type a s = Some (i, s1)" and wf1: "wf_parser s1" and ok1: "tl_ok s1"
    and len1: "length (id_lookup s1) \<le> length (id_lookup s) + 4" and e1: "extends s s1"
    and r1: "resolved a i s1"
    by blast
  have same: "convert_type b s1 = Some (i, s1)" if "type_eq a b"
  proof -
    from that r1 have "resolved b i s1" by (simp add: resolved_eq)
    with ok1 show ?thesis by (rule resolved_convert)
  qed
  have differ: "\<exists>j s2. convert_type b s1 = Some (j, s2) \<and> i \<noteq> j"
    if eq: "type_eq (a\<lparr>array_length := array_length b\<rparr>) b"
      and ne: "array_length a \<noteq> array_length b" and decl: "struct_declared a s"
  proof -
    from assms(3) len1 have "room 4 s1" by (simp add: room_def)
    from convert_type_ok [OF wf1 ok1 this, of b]
    obtain j s2 where 2: "convert_type b s1 = Some (j, s2)" and ok2: "tl_ok s2"
      and e2: "extends s1 s2" and r2: "resolved b j s2"
      by blast
    from r1 e2 have r1': "resolved a i s2" by (rule resolved_mono)
    have e: "extends s s2" using e1 e2 by (rule ext_trans)
    from eq have base: "base a = base b" and def: "definition' a = definition' b"
      by (simp_all add: type_eq_def)
    from ne have neq: "\<not> type_eq a b" by (simp add: type_eq_def)
    (* the identifier of an array type is at least 100 and names no struct declaration *)
    have arr: "100 \<le> k \<and> (\<exists>n. lookup_id k s2 = Some n \<and> op n \<noteq> OpTypeStruct)"
      if "is_array t" "resolved t k s2" for t k
    proof -
      from that(1) have "\<not> unsupported t" "\<not> plain_struct t"
        by (simp_all add: unsupported_def plain_struct_def composite_def)
      with that(2) have "interned t k s2" by (simp add: resolved_def)
      from interned_entry [OF this] obtain t' where "(t', k) \<in> set (type_lookup s2)" "type_eq t' t"
        by blast
      with ok2 \<open>\<not> plain_struct t\<close> show ?thesis
        unfolding tl_ok_def by (fastforce simp: type_eq_shape(2))
    qed
    (* a type that is no array and an array type: their identifiers differ *)
    have plain: "k \<noteq> k'"
      if t: "\<not> is_array t" "resolved t k s2" and t': "is_array t'" "resolved t' k' s2"
        and d: "base t = base a" "definition' t = definition' a" for t t' k k'
    proof
      assume "k = k'"
      from arr [OF t'] obtain n where k': "100 \<le> k'" "lookup_id k' s2 = Some n" "op n \<noteq> OpTypeStruct"
        by blast
      from t' have nps': "\<not> plain_struct t'"
        by (simp add: plain_struct_def composite_def)
      from k'(1) \<open>k = k'\<close> have "k \<noteq> 0" by auto
      with t(2) have it: "interned t k s2" by (simp add: resolved_def)
      from t'(2) nps' have it': "interned t' k' s2"
        by (auto simp: resolved_def unsupported_def plain_struct_def composite_def t'(1))
      from interned_entry [OF it] obtain u where u: "(u, k) \<in> set (type_lookup s2)" "type_eq u t"
        by blast
      from interned_entry [OF it'] obtain u' where u': "(u', k') \<in> set (type_lookup s2)" "type_eq u' t'"
        by blast
      from u'(2) nps' have nu': "\<not> plain_struct u'" by (simp add: type_eq_shape(2))
      show False
      proof (cases "plain_struct u")
        case True
        with ok2 u(1) have "k = definition' u" unfolding tl_ok_def by fastforce
        with u(2) d(2) have kd: "k = definition' a" by (simp add: type_eq_shape(5))
        from True u(2) have "base t = OpTypeStruct"
          by (simp add: plain_struct_def type_eq_def)
        with d(1) decl obtain m where "lookup_id (definition' a) s = Some m" "op m = OpTypeStruct"
          by (auto simp: struct_declared_def)
        from lookup_id_ext [OF this(1) e] this(2)
        obtain m' where "lookup_id (definition' a) s2 = Some m'" "op m' = OpTypeStruct"
          by (auto simp: node_le_def)
        with k' kd \<open>k = k'\<close> show False by simp
      next
        case False
        with ok2 u(1) u'(1) nu' \<open>k = k'\<close> have "u = u'"
          unfolding tl_ok_def by fastforce
        with u(2) u'(2) have "type_eq t t'"
          by (blast intro: type_eq_trans type_eq_sym)
        with t(1) t'(1) show False by (simp add: type_eq_shape(6))
      qed
    qed
    have "i \<noteq> j"
    proof (cases "is_array a")
      case a: True
      show ?thesis
      proof (cases "is_array b")
        case b: True
        show ?thesis
        proof
          assume "i = j"
          from a r1' have ia: "interned a i s2"
            by (auto simp: resolved_def unsupported_def composite_def)
          from b r2 have ib: "interned b j s2"
            by (auto simp: resolved_def unsupported_def composite_def)
          from interned_entry [OF ia] obtain u where u: "(u, i) \<in> set (type_lookup s2)" "type_eq u a"
            by blast
          from interned_entry [OF ib] obtain u' where u': "(u', j) \<in> set (type_lookup s2)" "type_eq u' b"
            by blast
          from a u(2) have "\<not> plain_struct u"
            by (simp add: type_eq_shape(6) plain_struct_def composite_def)
          moreover from b u'(2) have "\<not> plain_struct u'"
            by (simp add: type_eq_shape(6) plain_struct_def composite_def)
          ultimately have "u = u'"
            using ok2 u(1) u'(1) \<open>i = j\<close> unfolding tl_ok_def by fastforce
          with u(2) u'(2) have "type_eq a b"
            by (blast intro: type_eq_trans type_eq_sym)
          with neq show False ..
        qed
      next
        case b: False
        from plain [OF b r2 a r1'] base def show ?thesis by auto
      qed
    next
      case a: False
      with ne have b: "is_array b" by (auto simp: is_array_def)
      from plain [OF a r1' b r2] show ?thesis by simp
    qed
    with 2 show ?thesis by blast
  qed
  from 1 same differ show ?thesis by blast
qed

text \<open>
  An instance of C1 as amended: a declared struct, the same struct with a qualifier, and
  an array of it.
\<close>

theorem convert_type_interning_witness:
  "(\<exists>i s1. convert_type struct_type struct_declared_parser = Some (i, s1) \<and>
      convert_type (struct_type\<lparr>qualifiers := 4\<rparr>) s1 = Some (i, s1)) \<and>
   (\<exists>i s1 j s2. convert_type struct_type struct_declared_parser = Some (i, s1) \<and>
      convert_type (struct_type\<lparr>array_length := 5\<rparr>) s1 = Some (j, s2) \<and> i \<noteq> j)"
proof -
  have 1: "type_eq struct_type (struct_type\<lparr>qualifiers := 4\<rparr>)"
    by (simp add: type_eq_def)
  have 2: "type_eq (struct_type\<lparr>array_length := array_length (struct_type\<lparr>array_length := 5\<rparr>)\<rparr>)
      (struct_type\<lparr>array_length := 5\<rparr>)"
    "array_length struct_type \<noteq> array_length (struct_type\<lparr>array_length := 5\<rparr>)"
    by (simp_all add: type_eq_def struct_type_def mk_type_info_def)
  have "lookup_id 100 struct_declared_parser =
      Some \<lparr>op = OpTypeStruct, result = 100, result_type = 0, operands = [],
            index = 0, location = no_location\<rparr>"
    using lookup_id_emit_new [of new_parser Variables no_location OpTypeStruct 0 "[]"]
    by (simp add: struct_declared_parser_def add_node_emit new_parser_def instructions.simps)
  then have 3: "struct_declared struct_type struct_declared_parser"
    by (simp add: struct_declared_def struct_type_def mk_type_info_def)
  have room: "room 8 struct_declared_parser"
    by (simp add: room_struct_declared_parser)
  note w = wf_struct_declared_parser tl_ok_struct_declared_parser room
  from convert_type_interning [OF w, of struct_type "struct_type\<lparr>qualifiers := 4\<rparr>"]
    convert_type_interning [OF w, of struct_type "struct_type\<lparr>array_length := 5\<rparr>"]
    1 2 3
  show ?thesis by blast
qed

text \<open>
  Claim C2. In a well-formed state, \<open>add_node\<close> returns an identifier of at least 100;
  after any further builder calls, the next \<open>add_node\<close> returns a strictly greater
  identifier (as long as fewer than \<open>2 ^ 32 - 100\<close> identifiers are allocated, so that the
  32-bit counter has not wrapped); and \<open>lookup_id\<close> still finds for the identifier a node
  with the opcode and the result type that were passed.
\<close>

theorem add_node_identifiers:
  assumes "wf_parser s" and "add_node sec loc opc ty s = (i, s1)" and "calls cs s1 = Some s2"
  shows "100 \<le> i \<and>
         (100 + length (id_lookup s2) < 2 ^ 32 \<longrightarrow> i < fst (add_node sec' loc' opc' ty' s2)) \<and>
         (\<exists>n. lookup_id i s2 = Some n \<and> op n = opc \<and> result_type n = ty)"
proof -
  from assms(2) have i: "i = next_id s" and s1: "s1 = emit sec loc opc ty [] s"
    by (simp_all add: add_node_emit)
  have k: "keeps s1 s2"
    using assms(3) by (rule keeps_calls)
  have "100 \<le> i"
    unfolding i using assms(1) by (rule wf_ge_100)
  moreover have "i < fst (add_node sec' loc' opc' ty' s2)"
    if bound: "100 + length (id_lookup s2) < 2 ^ 32"
  proof -
    from assms(1) have "consistent s1"
      unfolding s1 by (simp add: wf_parser_def consistent_emit)
    with k bound have "wf_parser s2"
      by (simp add: keeps_def wf_parser_def)
    then have "unat (next_id s2) = 100 + length (id_lookup s2)"
      by (rule wf_unat)
    moreover from k have "length (id_lookup s1) \<le> length (id_lookup s2)"
      by (simp add: keeps_def ext_length)
    ultimately show ?thesis
      using wf_unat [OF assms(1)] by (simp add: i s1 add_node_emit word_less_nat_alt)
  qed
  moreover have "\<exists>n. lookup_id i s2 = Some n \<and> op n = opc \<and> result_type n = ty"
  proof -
    have "lookup_id i s1 =
        Some \<lparr>op = opc, result = next_id s, result_type = ty, operands = [],
              index = length (instructions sec s), location = loc\<rparr>"
      unfolding i s1 using wf_new_index [OF assms(1)] by (rule lookup_id_emit_new)
    from lookup_id_ext [OF this] k show ?thesis
      by (auto simp: keeps_def node_le_def)
  qed
  ultimately show ?thesis by blast
qed

text \<open>
  An instance of C2 on a new parser.
\<close>

theorem add_node_identifiers_witness:
  "100 \<le> fst (add_node Variables no_location OpTypeVoid 0 new_parser) \<and>
   fst (add_node Variables no_location OpTypeVoid 0 new_parser)
     < fst (add_node Entries no_location OpTypeBool 7
          (the (calls [ConvertType float_type, AddOperands 100 [5]]
             (snd (add_node Variables no_location OpTypeVoid 0 new_parser))))) \<and>
   (\<exists>n. lookup_id (fst (add_node Variables no_location OpTypeVoid 0 new_parser))
          (the (calls [ConvertType float_type, AddOperands 100 [5]]
             (snd (add_node Variables no_location OpTypeVoid 0 new_parser)))) = Some n \<and>
        op n = OpTypeVoid \<and> result_type n = 0)"
proof -
  let ?s1 = "snd (add_node Variables no_location OpTypeVoid 0 new_parser)"
  let ?cs = "[ConvertType float_type, AddOperands 100 [5]]"
  have run: "calls ?cs ?s1 = Some (the (calls ?cs ?s1))"
    by code_simp
  have "length (id_lookup (the (calls ?cs ?s1))) = 2"
    by code_simp
  then have bound: "100 + length (id_lookup (the (calls ?cs ?s1))) < 2 ^ 32"
    by simp
  show ?thesis
    using add_node_identifiers [OF wf_new_parser _ run,
        of Variables no_location OpTypeVoid 0 "fst (add_node Variables no_location OpTypeVoid 0 new_parser)"
           Entries no_location OpTypeBool 7] bound
    by simp
qed

text \<open>
  Claim C3. \<open>operator==\<close> holds exactly when base, size, rows, cols, signedness, array
  length, definition and pointer flag agree; the qualifiers play no role.
\<close>

theorem type_info_equality:
  "(type_eq a b \<longleftrightarrow>
      base a = base b \<and> size' a = size' b \<and> rows a = rows b \<and> cols a = cols b \<and>
      is_signed a = is_signed b \<and> array_length a = array_length b \<and>
      definition' a = definition' b \<and> is_pointer a = is_pointer b) \<and>
   type_eq (a\<lparr>qualifiers := q\<rparr>) (b\<lparr>qualifiers := q'\<rparr>) = type_eq a b \<and>
   type_eq a (a\<lparr>qualifiers := q\<rparr>)"
  by (simp add: type_eq_def)

text \<open>
  Claim C4 as stated fails for a struct type with three rows and one column: it is
  neither an array nor a pointer, yet \<open>convert_type\<close> takes the vector branch, adds an
  \<open>OpTypeVector\<close> node and returns its identifier 101, not the definition 100.
\<close>

theorem struct_shaped_vector_counterexample:
  "is_struct struct_shaped_vector \<and> \<not> is_array struct_shaped_vector \<and>
   \<not> is_pointer struct_shaped_vector \<and> definition' struct_shaped_vector = 100 \<and>
   map_option op (lookup_id 100 struct_declared_parser) = Some OpTypeStruct \<and>
   map_option fst (convert_type struct_shaped_vector struct_declared_parser) = Some 101 \<and>
   length (variables struct_declared_parser) = 1 \<and>
   map_option (\<lambda>r. map op (variables (snd r)))
     (convert_type struct_shaped_vector struct_declared_parser) =
       Some [OpTypeStruct, OpTypeVector]"
  by code_simp

text \<open>
  Claim C4, amended. A struct type that is no array, pointer, vector or matrix converts
  to its definition, and no section, lookup entry or identifier is added.
\<close>

theorem struct_type_returns_definition:
  assumes "tl_ok s" and "is_struct t" and "\<not> is_array t" and "\<not> is_pointer t"
    and "\<not> is_vector t" and "\<not> is_matrix t"
  shows "\<exists>s'. convert_type t s = Some (definition' t, s') \<and>
           (\<forall>sec. instructions sec s' = instructions sec s) \<and>
           id_lookup s' = id_lookup s \<and> next_id s' = next_id s"
proof -
  from assms(2-6) have ps: "plain_struct t"
    by (simp add: plain_struct_def composite_def is_struct_def)
  from missing_or_interned [of t s] show ?thesis
  proof
    assume "missing t s"
    then have "convert_type t s = Some (definition' t, push_type t (definition' t) s)"
      using ps by (rule convert_type_struct)
    then show ?thesis by simp
  next
    assume "\<exists>ty. interned t ty s"
    then obtain ty where ty: "interned t ty s" ..
    from interned_entry [OF ty] obtain t' where e: "(t', ty) \<in> set (type_lookup s)"
      and eq: "type_eq t' t"
      by blast
    from eq ps have "plain_struct t'" and "definition' t' = definition' t"
      by (simp_all add: type_eq_shape)
    with assms(1) e have "ty = definition' t"
      by (auto simp: tl_ok_def)
    with ty have "convert_type t s = Some (definition' t, s)"
      by (simp add: convert_type_hit)
    then show ?thesis by simp
  qed
qed

text \<open>
  An instance of C4 as amended: a declared struct.
\<close>

theorem struct_type_returns_definition_witness:
  "\<exists>s'. convert_type struct_type struct_declared_parser = Some (100, s') \<and>
        (\<forall>sec. instructions sec s' = instructions sec struct_declared_parser) \<and>
        id_lookup s' = id_lookup struct_declared_parser \<and>
        next_id s' = next_id struct_declared_parser"
proof -
  have ok: "tl_ok struct_declared_parser"
    by (simp add: tl_ok_def struct_declared_parser_def add_node_emit new_parser_def)
  show ?thesis
    using struct_type_returns_definition [OF ok, of struct_type]
    by (simp add: struct_type_def mk_type_info_def is_struct_def is_array_def is_vector_def
        is_matrix_def)
qed

text \<open>
  Claim C5. In a well-formed state with room for six identifiers, \<open>convert_constant\<close> with
  value 0 adds an \<open>OpConstantNull\<close> node without operands, and with a nonzero value an
  \<open>OpConstant\<close> node whose only operand is the value; the node's result type is the
  interned identifier of the type. Two calls with different nonzero values give two
  different identifiers and nodes, with the same result type.
\<close>

theorem convert_constant_nodes:
  assumes "wf_parser s" and "tl_ok s" and "room 6 s"
  shows "(\<exists>i s' n. convert_constant t 0 s = Some (i, s') \<and> lookup_id i s' = Some n \<and>
            op n = OpConstantNull \<and> operands n = [] \<and>
            convert_type t s' = Some (result_type n, s')) \<and>
         (v \<noteq> 0 \<longrightarrow>
           (\<exists>i s' n. convert_constant t v s = Some (i, s') \<and> lookup_id i s' = Some n \<and>
              op n = OpConstant \<and> operands n = [v] \<and>
              convert_type t s' = Some (result_type n, s'))) \<and>
         (v \<noteq> 0 \<and> w \<noteq> 0 \<and> v \<noteq> w \<longrightarrow>
           (\<exists>i s1 j s2 n m. convert_constant t v s = Some (i, s1) \<and>
              convert_constant t w s1 = Some (j, s2) \<and> i \<noteq> j \<and>
              lookup_id i s2 = Some n \<and> lookup_id j s2 = Some m \<and>
              op n = OpConstant \<and> op m = OpConstant \<and>
              operands n = [v] \<and> operands m = [w] \<and> result_type n = result_type m \<and>
              convert_type t s2 = Some (result_type n, s2)))"
proof (intro conjI impI)
  from assms(3) have room: "room (1 + 5) s" by simp
  show "\<exists>i s' n. convert_constant t 0 s = Some (i, s') \<and> lookup_id i s' = Some n \<and>
            op n = OpConstantNull \<and> operands n = [] \<and>
            convert_type t s' = Some (result_type n, s')"
  proof -
    from constant_node [OF assms(1,2) room, of t 0]
    obtain ty s1 where wf1: "wf_parser s1" and ok1: "tl_ok s1" and r1: "resolved t ty s1"
      and room2: "room (1 + 1) s1"
      and c': "convert_constant t 0 s =
          Some (next_id s1,
            emit Variables no_location (if (0 :: 32 word) = 0 then OpConstantNull else OpConstant) ty
              (if (0 :: 32 word) = 0 then [] else [0]) s1)"
      by blast
    from room2 have room1: "room 1 s1" by (simp add: room_def)
    from c' have c: "convert_constant t 0 s =
        Some (next_id s1, emit Variables no_location OpConstantNull ty [] s1)"
      by simp
    from typed_node(3,4) [OF wf1 ok1 room1 r1, of OpConstantNull "[]"] c show ?thesis
      by auto
  qed
  show "\<exists>i s' n. convert_constant t v s = Some (i, s') \<and> lookup_id i s' = Some n \<and>
            op n = OpConstant \<and> operands n = [v] \<and>
            convert_type t s' = Some (result_type n, s')" if v: "v \<noteq> 0"
  proof -
    from constant_node [OF assms(1,2) room, of t v]
    obtain ty s1 where wf1: "wf_parser s1" and ok1: "tl_ok s1" and r1: "resolved t ty s1"
      and room2: "room (1 + 1) s1"
      and c': "convert_constant t v s =
          Some (next_id s1,
            emit Variables no_location (if v = 0 then OpConstantNull else OpConstant) ty
              (if v = 0 then [] else [v]) s1)"
      by blast
    from room2 have room1: "room 1 s1" by (simp add: room_def)
    from c' v have c: "convert_constant t v s =
        Some (next_id s1, emit Variables no_location OpConstant ty [v] s1)"
      by simp
    from typed_node(3,4) [OF wf1 ok1 room1 r1, of OpConstant "[v]"] c show ?thesis
      by auto
  qed
  show "\<exists>i s1 j s2 n m. convert_constant t v s = Some (i, s1) \<and>
              convert_constant t w s1 = Some (j, s2) \<and> i \<noteq> j \<and>
              lookup_id i s2 = Some n \<and> lookup_id j s2 = Some m \<and>
              op n = OpConstant \<and> op m = OpConstant \<and>
              operands n = [v] \<and> operands m = [w] \<and> result_type n = result_type m \<and>
              convert_type t s2 = Some (result_type n, s2)"
    if vw: "v \<noteq> 0 \<and> w \<noteq> 0 \<and> v \<noteq> w"
  proof -
    from constant_node [OF assms(1,2) room, of t v]
    obtain ty s0 where wf0: "wf_parser s0" and ok0: "tl_ok s0" and r0: "resolved t ty s0"
      and room2: "room (1 + 1) s0"
      and c': "convert_constant t v s =
          Some (next_id s0,
            emit Variables no_location (if v = 0 then OpConstantNull else OpConstant) ty
              (if v = 0 then [] else [v]) s0)"
      by blast
    from room2 have room0: "room 2 s0" by (simp add: room_def)
    from c' vw have c1: "convert_constant t v s =
        Some (next_id s0, emit Variables no_location OpConstant ty [v] s0)"
      by simp
    let ?s1 = "emit Variables no_location OpConstant ty [v] s0"
    from room0 have room0': "room 1 s0" by (simp add: room_def)
    note n1 = typed_node [OF wf0 ok0 room0' r0, of OpConstant "[v]"]
    from n1(4) obtain n where n: "lookup_id (next_id s0) ?s1 = Some n" "op n = OpConstant"
      "result_type n = ty" "operands n = [v]"
      by blast
    from room0 have room1: "room 1 ?s1" by (simp add: room_def)
    from n1(3) have r1: "resolved t ty ?s1" using r0 by simp
    let ?s2 = "emit Variables no_location OpConstant ty [w] ?s1"
    have c2: "convert_constant t w ?s1 = Some (next_id ?s1, ?s2)"
      using convert_constant_resolved [OF n1(1) n1(3) n1(1), of w] vw by simp
    note n2 = typed_node [OF n1(1) n1(2) room1 r1, of OpConstant "[w]"]
    from n2(4) obtain m where m: "lookup_id (next_id ?s1) ?s2 = Some m" "op m = OpConstant"
      "result_type m = ty" "operands m = [w]"
      by blast
    have old: "lookup_id (next_id s0) ?s2 = Some n"
      using n(1) by (rule lookup_id_emit_old)
    have ne: "next_id s0 \<noteq> next_id ?s1"
      using next_id_less_Suc [OF wf0 room0'] by simp
    from c1 c2 ne old m n n2(3) show ?thesis
      by (intro exI [of _ "next_id s0"] exI [of _ ?s1] exI [of _ "next_id ?s1"] exI [of _ ?s2]
          exI [of _ n] exI [of _ m]) simp
  qed
qed

text \<open>
  An instance of C5: the float constants 0, 5 and 6 on a new parser.
\<close>

theorem convert_constant_nodes_witness:
  "(\<exists>i s' n. convert_constant float_type 0 new_parser = Some (i, s') \<and>
      lookup_id i s' = Some n \<and> op n = OpConstantNull \<and> operands n = [] \<and>
      convert_type float_type s' = Some (result_type n, s')) \<and>
   (\<exists>i s' n. convert_constant float_type 5 new_parser = Some (i, s') \<and>
      lookup_id i s' = Some n \<and> op n = OpConstant \<and> operands n = [5] \<and>
      convert_type float_type s' = Some (result_type n, s')) \<and>
   (\<exists>i s1 j s2 n m. convert_constant float_type 5 new_parser = Some (i, s1) \<and>
      convert_constant float_type 6 s1 = Some (j, s2) \<and> i \<noteq> j \<and>
      lookup_id i s2 = Some n \<and> lookup_id j s2 = Some m \<and>
      op n = OpConstant \<and> op m = OpConstant \<and>
      operands n = [5] \<and> operands m = [6] \<and> result_type n = result_type m \<and>
      convert_type float_type s2 = Some (result_type n, s2))"
  using convert_constant_nodes [OF wf_new_parser tl_ok_new_parser, of float_type 5 6]
  by (simp add: room_new_parser)

text \<open>
  Claim C6 as stated fails for an array type that is already interned: equality ignores
  the length expression, so the second \<open>float[3]\<close>, with length expression 8, gets the
  node of the first, whose operand is the length expression 7, and no node is added.
\<close>

theorem array_length_expression_counterexample:
  "is_array float_array_b \<and> 0 <s array_length float_array_b \<and>
   array_lenghth_expression float_array_b = 8 \<and>
   convert_type float_array_b (snd (the (convert_type float_array_a new_parser))) =
     Some (101, snd (the (convert_type float_array_a new_parser))) \<and>
   map_option operands (lookup_id 101 (snd (the (convert_type float_array_a new_parser)))) =
     Some [100, 7]"
  by code_simp

text \<open>
  Claim C6, amended. For an array type without pointer flag and with \<open>definition\<close> 0 that
  has no equal entry in \<open>_type_lookup\<close> yet, \<open>convert_type\<close> adds the array node: for a
  positive length an \<open>OpTypeArray\<close> node whose operands are the interned identifier of the
  element type (the type with array length 0) and the length expression, for a negative
  length an \<open>OpTypeRuntimeArray\<close> node whose only operand is that identifier. Converting
  the element type first, from the same state, gives that identifier while the array
  node does not exist yet, and the identifier is smaller than the array node's.
\<close>

theorem array_type_node:
  assumes "wf_parser s" and "tl_ok s" and "room 4 s" and "is_array t" and "\<not> is_pointer t"
    and "definition' t = 0"
    and "find (\<lambda>x. type_eq (fst x) t) (type_lookup s) = None"
  shows "\<exists>e s1 ty s' n.
           convert_type (t\<lparr>array_length := 0\<rparr>) s = Some (e, s1) \<and>
           lookup_id ty s1 = None \<and>
           convert_type t s = Some (ty, s') \<and> lookup_id ty s' = Some n \<and>
           (0 <s array_length t \<longrightarrow>
              op n = OpTypeArray \<and> operands n = [e, array_lenghth_expression t]) \<and>
           (array_length t <s 0 \<longrightarrow> op n = OpTypeRuntimeArray \<and> operands n = [e]) \<and>
           convert_type (t\<lparr>array_length := 0\<rparr>) s' = Some (e, s') \<and>
           e < ty"
proof -
  let ?mk = "mk_type_info (base t) (size' t) (rows t) (cols t) (is_signed t)"
  let ?el = "t\<lparr>array_length := 0\<rparr>"
  from assms(5,6) have eq: "type_eq ?mk ?el"
    by (simp add: type_eq_def mk_type_info_def)
  from assms(4) have comp: "composite t" and el: "elem_type t = ?mk"
    by (simp_all add: composite_def elem_type_def)
  from assms(7) have miss: "missing t s"
    by (simp add: missing_def)
  from convert_type_composite_wf [OF assms(1-3) miss comp]
  obtain e s1 where 1: "convert_type ?mk s = Some (e, s1)" and wf1: "wf_parser s1" and ok1: "tl_ok s1"
    and r1: "resolved ?mk e s1" and room1: "room 1 s1" and miss1: "missing t s1"
    and 2: "convert_type t s =
             Some (next_id s1,
               push_type t (next_id s1)
                 (emit Variables no_location (type_op t) 0 (type_operands t e) s1))"
    unfolding el by blast
  let ?s' = "push_type t (next_id s1)
               (emit Variables no_location (type_op t) 0 (type_operands t e) s1)"
  from convert_type_type_eq [OF assms(1-3) eq] 1
  obtain sb where b: "convert_type ?el s = Some (e, sb)" and nb: "next_id sb = next_id s1"
    and ib: "id_lookup sb = id_lookup s1"
    by auto
  have none: "lookup_id (next_id s1) sb = None"
    using wf_new_index [OF wf1] by (simp add: lookup_id_def lookup_ref_def ib)
  note p = new_type_post [OF wf1 ok1 room1 miss1 composite_not_struct [OF comp],
      of "type_operands t e"]
  have n: "lookup_id (next_id s1) ?s' =
      Some \<lparr>op = type_op t, result = next_id s1, result_type = 0,
            operands = type_operands t e,
            index = length (instructions Variables s1), location = no_location\<rparr>"
    using lookup_id_emit_new [OF wf_new_index [OF wf1]] by simp
  have ops: "0 <s array_length t \<longrightarrow>
      type_op t = OpTypeArray \<and> type_operands t e = [e, array_lenghth_expression t]"
    and opr: "array_length t <s 0 \<longrightarrow>
      type_op t = OpTypeRuntimeArray \<and> type_operands t e = [e]"
    using assms(4) by (auto simp: type_op_def type_operands_def word_sless_alt)
  have e': "convert_type ?el ?s' = Some (e, ?s')"
  proof -
    have "extends s1 ?s'"
      using ext_emit ext_push_type by (rule ext_trans)
    with r1 have "resolved ?mk e ?s'" by (rule resolved_mono)
    then have "resolved ?el e ?s'" by (simp add: resolved_eq [OF eq])
    with p(2) show ?thesis by (rule resolved_convert)
  qed
  have lt: "e < next_id s1"
  proof -
    have "definition' ?mk = 0" by (simp add: mk_type_info_def)
    with resolved_bound [OF ok1 r1] have "e = 0 \<or> e < next_id s1" by auto
    moreover have "0 < next_id s1"
      using wf_ge_100 [OF wf1] by (simp add: word_less_nat_alt word_le_nat_alt)
    ultimately show ?thesis by auto
  qed
  from b none 2 n ops opr e' lt show ?thesis
    by (intro exI [of _ e] exI [of _ sb] exI [of _ "next_id s1"] exI [of _ ?s']) simp
qed

text \<open>
  Two instances of C6 as amended, on a new parser: \<open>float[3]\<close> and a float array of
  runtime length.
\<close>

theorem array_type_node_witness:
  "(\<exists>e s1 ty s' n.
      convert_type (float_array_a\<lparr>array_length := 0\<rparr>) new_parser = Some (e, s1) \<and>
      lookup_id ty s1 = None \<and>
      convert_type float_array_a new_parser = Some (ty, s') \<and> lookup_id ty s' = Some n \<and>
      op n = OpTypeArray \<and> operands n = [e, 7] \<and>
      convert_type (float_array_a\<lparr>array_length := 0\<rparr>) s' = Some (e, s') \<and> e < ty) \<and>
   (\<exists>e s1 ty s' n.
      convert_type (float_runtime_array\<lparr>array_length := 0\<rparr>) new_parser = Some (e, s1) \<and>
      lookup_id ty s1 = None \<and>
      convert_type float_runtime_array new_parser = Some (ty, s') \<and> lookup_id ty s' = Some n \<and>
      op n = OpTypeRuntimeArray \<and> operands n = [e] \<and>
      convert_type (float_runtime_array\<lparr>array_length := 0\<rparr>) s' = Some (e, s') \<and> e < ty)"
proof -
  have ha: "is_array float_array_a" "\<not> is_pointer float_array_a"
    "definition' float_array_a = 0"
    "find (\<lambda>x. type_eq (fst x) float_array_a) (type_lookup new_parser) = None"
    "0 <s array_length float_array_a" "array_lenghth_expression float_array_a = 7"
    by (simp_all add: float_array_a_def float_type_def mk_type_info_def is_array_def
        new_parser_def word_sless_alt)
  have hr: "is_array float_runtime_array" "\<not> is_pointer float_runtime_array"
    "definition' float_runtime_array = 0"
    "find (\<lambda>x. type_eq (fst x) float_runtime_array) (type_lookup new_parser) = None"
    "array_length float_runtime_array <s 0"
    by (simp_all add: float_runtime_array_def float_type_def mk_type_info_def is_array_def
        new_parser_def word_sless_alt)
  have room: "room 4 new_parser"
    by (simp add: room_new_parser)
  from array_type_node [OF wf_new_parser tl_ok_new_parser room ha(1-4)] ha(5,6)
  have 1: "\<exists>e s1 ty s' n.
      convert_type (float_array_a\<lparr>array_length := 0\<rparr>) new_parser = Some (e, s1) \<and>
      lookup_id ty s1 = None \<and>
      convert_type float_array_a new_parser = Some (ty, s') \<and> lookup_id ty s' = Some n \<and>
      op n = OpTypeArray \<and> operands n = [e, 7] \<and>
      convert_type (float_array_a\<lparr>array_length := 0\<rparr>) s' = Some (e, s') \<and> e < ty"
    by simp blast
  from array_type_node [OF wf_new_parser tl_ok_new_parser room hr(1-4)] hr(5)
  have 2: "\<exists>e s1 ty s' n.
      convert_type (float_runtime_array\<lparr>array_length := 0\<rparr>) new_parser = Some (e, s1) \<and>
      lookup_id ty s1 = None \<and>
      convert_type float_runtime_array new_parser = Some (ty, s') \<and> lookup_id ty s' = Some n \<and>
      op n = OpTypeRuntimeArray \<and> operands n = [e] \<and>
      convert_type (float_runtime_array\<lparr>array_length := 0\<rparr>) s' = Some (e, s') \<and> e < ty"
    by simp blast
  from 1 2 show ?thesis ..
qed

text \<open>
  Claim C7. \<open>convert_type\<close> on a function adds an \<open>OpTypeFunction\<close> node whose operands are
  the interned identifier of the return type followed by those of the parameter types,
  in order: converting the return type and the parameters again, in the final state,
  answers exactly the operands.
\<close>

theorem function_type_node:
  assumes "wf_parser s" and "tl_ok s" and "room (4 * length (parameter_list f) + 5) s"
  shows "\<exists>ty s' n. convert_function_type f s = Some (ty, s') \<and> lookup_id ty s' = Some n \<and>
           op n = OpTypeFunction \<and>
           map (\<lambda>t. convert_type t s') (return_type f # parameter_list f) =
             map (\<lambda>i. Some (i, s')) (operands n)"
proof -
  from convert_function_type_wf [OF assms]
  obtain ret ids s2 where wf2: "wf_parser s2" and ok2: "tl_ok s2" and room2: "room 1 s2"
    and r1: "resolved (return_type f) ret s2"
    and r2: "list_all2 (\<lambda>t i. resolved t i s2) (parameter_list f) ids"
    and c: "convert_function_type f s =
             Some (next_id s2, emit Variables no_location OpTypeFunction 0 (ret # ids) s2)"
    by blast
  let ?s' = "emit Variables no_location OpTypeFunction 0 (ret # ids) s2"
  have n: "lookup_id (next_id s2) ?s' =
      Some \<lparr>op = OpTypeFunction, result = next_id s2, result_type = 0, operands = ret # ids,
            index = length (instructions Variables s2), location = no_location\<rparr>"
    using wf_new_index [OF wf2] by (rule lookup_id_emit_new)
  have ok': "tl_ok ?s'"
    using wf2 ok2 room2 by (rule tl_ok_emit)
  have "list_all2 (\<lambda>t i. resolved t i ?s') (return_type f # parameter_list f) (ret # ids)"
    using r1 r2 by simp
  with ok' have "map (\<lambda>t. convert_type t ?s') (return_type f # parameter_list f) =
      map (\<lambda>i. Some (i, ?s')) (ret # ids)"
    by (rule resolved_map)
  with c n show ?thesis by simp
qed

text \<open>
  An instance of C7: \<open>float f(float3, float)\<close> on a new parser.
\<close>

theorem function_type_node_witness:
  "\<exists>ty s' n. convert_function_type example_function new_parser = Some (ty, s') \<and>
     lookup_id ty s' = Some n \<and> op n = OpTypeFunction \<and>
     map (\<lambda>t. convert_type t s') [float_type, float3_type, float_type] =
       map (\<lambda>i. Some (i, s')) (operands n)"
  using function_type_node [OF wf_new_parser tl_ok_new_parser, of example_function]
  by (simp add: room_new_parser example_function_def)

text \<open>
  Claim C8. A type that is no array, pointer, vector or matrix and whose base is outside
  the seven supported ones converts to 0 and leaves the state as it is.
\<close>

theorem unsupported_base_yields_zero:
  assumes "tl_ok s" and "\<not> is_array t" and "\<not> is_pointer t" and "\<not> is_vector t"
    and "\<not> is_matrix t"
    and "base t \<notin> {OpTypeVoid, OpTypeBool, OpTypeFloat, OpTypeInt, OpTypeStruct, OpTypeImage,
           OpTypeSampledImage}"
  shows "convert_type t s = Some (0, s)"
proof -
  from assms(2-6) have u: "unsupported t"
    by (simp add: unsupported_def composite_def supported_base_def)
  from tl_ok_supported [OF assms(1) u] u show ?thesis
    by (rule convert_type_unsupported)
qed

text \<open>
  An instance of C8: a sampler type on a new parser.
\<close>

theorem unsupported_base_yields_zero_witness:
  "convert_type (mk_type_info OpTypeSampler 0 1 1 False) new_parser = Some (0, new_parser)"
  by (rule unsupported_base_yields_zero [OF tl_ok_new_parser])
     (simp_all add: mk_type_info_def is_array_def is_vector_def is_matrix_def)

text \<open>
  Claim C9. \<open>is_scalar\<close>, \<open>is_vector\<close> and \<open>is_matrix\<close> in terms of the members, with the
  bit-fields read as numbers; no type is both a vector and a matrix.
\<close>

theorem type_info_shape_predicates:
  "(is_scalar t \<longleftrightarrow>
      array_length t = 0 \<and> \<not> is_matrix t \<and> \<not> is_vector t \<and>
      (base t = OpTypeBool \<or> base t = OpTypeInt \<or> base t = OpTypeFloat)) \<and>
   (is_vector t \<longleftrightarrow> 1 < unat (rows t) \<and> unat (cols t) = 1) \<and>
   (is_matrix t \<longleftrightarrow> 1 \<le> unat (rows t) \<and> 1 < unat (cols t)) \<and>
   \<not> (is_vector t \<and> is_matrix t)"
proof -
  have "is_scalar t \<longleftrightarrow>
      array_length t = 0 \<and> \<not> is_matrix t \<and> \<not> is_vector t \<and>
      (base t = OpTypeBool \<or> base t = OpTypeInt \<or> base t = OpTypeFloat)"
    by (simp add: is_scalar_def is_array_def is_numeric_def is_boolean_def is_integral_def
        is_floating_point_def)
  moreover have "is_vector t \<longleftrightarrow> 1 < unat (rows t) \<and> unat (cols t) = 1"
    by (simp add: is_vector_def word_less_nat_alt word_unat_eq_iff [of "cols t"])
  moreover have "is_matrix t \<longleftrightarrow> 1 \<le> unat (rows t) \<and> 1 < unat (cols t)"
    by (simp add: is_matrix_def word_less_nat_alt word_le_nat_alt)
  moreover have "\<not> (is_vector t \<and> is_matrix t)"
    by (auto simp: is_vector_def is_matrix_def)
  ultimately show ?thesis by blast
qed

text \<open>
  Claim C10. The members of a default-constructed \<open>pass_properties\<close>, whatever the four
  indeterminate members hold.
\<close>

theorem default_pass_properties_values:
  "(let p = default_pass_properties srgb blend stencil reference :: 'v pass_properties in
      clear_render_targets p \<and> color_write_mask p = 0xF \<and>
      stencil_read_mask p = 0xFF \<and> stencil_write_mask p = 0xFF \<and>
      blend_op p = ADD \<and> blend_op_alpha p = ADD \<and>
      src_blend p = ONE \<and> dest_blend p = ZERO \<and>
      src_blend_alpha p = ONE \<and> dest_blend_alpha p = ZERO \<and>
      stencil_comparison_func p = ALWAYS \<and>
      stencil_op_pass p = KEEP \<and> stencil_op_fail p = KEEP \<and> stencil_op_depth_fail p = KEEP \<and>
      render_targets p = [0, 0, 0, 0, 0, 0, 0, 0] \<and> vertex_shader p = 0 \<and> pixel_shader p = 0)"
  by (simp add: default_pass_properties_def numeral_eq_Suc)

end
